theory Spec2Isabelle
  imports Complex_Main
begin

section \<open>Data model of the polyphonic audio engine\<close>

text \<open>
  Shallow embedding of \<^verbatim>\<open>src/services/AudioEngine.ts\<close> and of the parameter types it
  consumes. JavaScript numbers are modelled as ideal \<^typ>\<open>real\<close> numbers (no rounding, no
  NaN); MIDI note numbers are \<^typ>\<open>int\<close>; timer handles and voice slots are \<^typ>\<open>nat\<close>.
  Objects held by reference (a voice of the pool) are addressed by their position in the
  pool. The audio rendering backend is outside the repository: every automatable
  parameter records the scheduling calls issued on it, in call order, and a generator
  records the times passed to its \<^verbatim>\<open>start\<close> and \<^verbatim>\<open>stop\<close>. The contents of the two noise
  buffers (random samples) are not modelled; a noise source records which buffer it plays.
  The source has no \<^verbatim>\<open>throw\<close> and swallows the exceptions of the backend calls that may
  raise on a finished node, so every operation of the model is a total function; absence
  (\<^verbatim>\<open>null\<close>, \<^verbatim>\<open>undefined\<close>) is \<open>None\<close>.
\<close>

datatype Waveform = SINE | SQUARE | SAWTOOTH | TRIANGLE

datatype NoiseType = White | Pink

record OscillatorParams =
  osc_id :: string
  osc_waveform :: Waveform
  octave :: real
  tune :: real
  osc_level :: real
  osc_enabled :: bool

record EnvelopeParams =
  attack :: real
  decay :: real
  sustain :: real
  release :: real

record FilterParams =
  cutoff :: real
  resonance :: real
  envelopeAmount :: real
  keyboardTracking :: real
  filter_type :: string

record NoiseParams =
  noise_type :: NoiseType
  noise_level :: real
  noise_enabled :: bool

record LFOParams =
  lfo_waveform :: Waveform
  rate :: real
  pitchAmount :: real
  filterAmount :: real
  lfo_enabled :: bool

record SynthParams =
  masterVolume :: real
  glide :: real
  oscillatorParams :: "OscillatorParams list"
  noise :: NoiseParams
  filterParams :: FilterParams
  ampEnvelope :: EnvelopeParams
  filterEnvelope :: EnvelopeParams
  lfo :: LFOParams

subsection \<open>The backend's automatable parameters and nodes\<close>

datatype ParamCall =
    CancelScheduledValues real
  | SetValueAtTime real real
  | LinearRampToValueAtTime real real

text \<open>
  An \<^verbatim>\<open>AudioParam\<close>: \<open>pvalue\<close> is what the getter \<^verbatim>\<open>param.value\<close> returns,
  \<open>calls\<close> the scheduling calls received so far (oldest first).
\<close>

record AudioParam =
  pvalue :: real
  calls :: "ParamCall list"

text \<open>
  One entry of \<^verbatim>\<open>voice.oscillators\<close>: the oscillator node (type, frequency parameter,
  the times passed to \<^verbatim>\<open>start\<close> and \<^verbatim>\<open>stop\<close>, whether the LFO pitch tap is connected
  to its detune parameter) and the gain of its gain node.
\<close>

record OscComponent =
  oscNode_type :: Waveform
  oscNode_frequency :: AudioParam
  oscNode_started :: "real list"
  oscNode_stopped :: "real list"
  oscNode_detuneLFO :: bool
  gainNode_gain :: AudioParam

record NoiseNode =
  noise_buffer :: NoiseType
  noise_loop :: bool
  noise_started :: "real list"
  noise_stopped :: "real list"

record FilterNode =
  biquad_type :: string
  biquad_Q :: AudioParam
  biquad_frequency :: AudioParam
  biquad_frequencyLFO :: bool

record PolyVoice =
  voice_id :: nat
  voice_note :: "int option"
  velocity :: real
  isActive :: bool
  isReleasing :: bool
  startTime :: real
  oscillators :: "OscComponent list"
  noiseNode :: "NoiseNode option"
  noiseGainNode :: "AudioParam option"
  filterNode :: FilterNode
  vcaNode :: AudioParam
  scheduledStopTimeouts :: "nat list"

datatype ContextState = Suspended | Running | Closed

record AudioContext =
  currentTime :: real
  sampleRate :: real
  ctx_state :: ContextState
  resumeCalls :: nat
  closeCalls :: nat

record LFOOscNode =
  lfoNode_type :: Waveform
  lfoNode_frequency :: AudioParam
  lfoNode_started :: bool

text \<open>
  A pending \<^verbatim>\<open>window.setTimeout\<close> callback of \<^verbatim>\<open>noteOff\<close>: its handle, its delay
  in milliseconds, and the two variables its closure captures (the voice and the note).
\<close>

record Timer =
  timer_id :: nat
  timer_delay :: real
  timer_voice :: nat
  timer_note :: int

record AudioEngine =
  audioContext :: AudioContext
  masterGain :: AudioParam
  masterConnected :: bool
  lfoOscNode :: "LFOOscNode option"
  lfoGainPitchNode :: "AudioParam option"
  lfoGainFilterNode :: "AudioParam option"
  voices :: "PolyVoice list"
  currentParams :: SynthParams
  pitchBendMultiplier :: real
  timers :: "Timer list"
  nextTimerId :: nat

definition MAX_POLYPHONY :: nat where
  "MAX_POLYPHONY = 8"

subsection \<open>Parameter scheduling\<close>

definition cancelScheduledValues :: "real \<Rightarrow> AudioParam \<Rightarrow> AudioParam" where
  "cancelScheduledValues t p = p\<lparr>calls := calls p @ [CancelScheduledValues t]\<rparr>"

definition setValueAtTime :: "real \<Rightarrow> real \<Rightarrow> AudioParam \<Rightarrow> AudioParam" where
  "setValueAtTime v t p = p\<lparr>calls := calls p @ [SetValueAtTime v t]\<rparr>"

definition linearRampToValueAtTime :: "real \<Rightarrow> real \<Rightarrow> AudioParam \<Rightarrow> AudioParam" where
  "linearRampToValueAtTime v t p = p\<lparr>calls := calls p @ [LinearRampToValueAtTime v t]\<rparr>"

text \<open>A parameter of a freshly created node, with the default value of its kind.\<close>

definition newParam :: "real \<Rightarrow> AudioParam" where
  "newParam d = \<lparr>pvalue = d, calls = []\<rparr>"

definition now :: "AudioEngine \<Rightarrow> real" where
  "now s = currentTime (audioContext s)"

definition nyquist :: "AudioEngine \<Rightarrow> real" where
  "nyquist s = sampleRate (audioContext s) / 2"

definition midiNoteToFrequency :: "real \<Rightarrow> real" where
  "midiNoteToFrequency n = 440 * 2 powr ((n - 69) / 12)"

definition applyEnvelope ::
  "AudioEngine \<Rightarrow> AudioParam \<Rightarrow> EnvelopeParams \<Rightarrow> real \<Rightarrow> real \<Rightarrow> real \<Rightarrow> AudioParam" where
  "applyEnvelope s param envelope baseValue peakValue sustainLevelProportion =
     linearRampToValueAtTime (sustainLevelProportion * peakValue)
       (now s + max 0.001 (attack envelope) + max 0.001 (decay envelope))
       (linearRampToValueAtTime peakValue (now s + max 0.001 (attack envelope))
         (setValueAtTime baseValue (now s)
           (cancelScheduledValues (now s) param)))"

definition releaseEnvelope :: "AudioEngine \<Rightarrow> AudioParam \<Rightarrow> real \<Rightarrow> real \<Rightarrow> AudioParam" where
  "releaseEnvelope s param releaseTime targetValue =
     linearRampToValueAtTime targetValue (now s + max 0.001 releaseTime)
       (setValueAtTime (pvalue param) (now s)
         (cancelScheduledValues (now s) param))"

subsection \<open>Array helpers\<close>

text \<open>
  \<^verbatim>\<open>Array.prototype.find\<close> returns the first element that satisfies the predicate; the
  model returns its position, which stands for the reference to that voice.
\<close>

fun findIndex :: "('a \<Rightarrow> bool) \<Rightarrow> 'a list \<Rightarrow> nat option" where
  "findIndex P [] = None"
| "findIndex P (x # xs) = (if P x then Some 0 else map_option Suc (findIndex P xs))"

text \<open>\<^verbatim>\<open>this.voices.filter(P)\<close>: the references to the matching voices, in pool order.\<close>

definition voicesWhere :: "(PolyVoice \<Rightarrow> bool) \<Rightarrow> PolyVoice list \<Rightarrow> nat list" where
  "voicesWhere P vs = filter (\<lambda>i. P (vs ! i)) [0..<length vs]"

text \<open>
  \<^verbatim>\<open>candidates.sort((a, b) => a.startTime - b.startTime)\<close>: the sort of the language is
  stable, as the insertion sort \<^const>\<open>sort_key\<close> is.
\<close>

definition sortByStartTime :: "PolyVoice list \<Rightarrow> nat list \<Rightarrow> nat list" where
  "sortByStartTime vs candidates = sort_key (\<lambda>i. startTime (vs ! i)) candidates"

text \<open>\<^verbatim>\<open>ids.forEach(clearTimeout)\<close> on the host's pending timers.\<close>

definition clearTimeouts :: "nat list \<Rightarrow> Timer list \<Rightarrow> Timer list" where
  "clearTimeouts ids ts = filter (\<lambda>t. timer_id t \<notin> set ids) ts"

text \<open>The truth value of \<^verbatim>\<open>voice.note\<close> in a condition: neither null nor 0.\<close>

definition noteTruthy :: "int option \<Rightarrow> bool" where
  "noteTruthy n = (case n of None \<Rightarrow> False | Some k \<Rightarrow> k \<noteq> 0)"

text \<open>\<^verbatim>\<open>Math.max(20, Math.min(sampleRate / 2, x))\<close>\<close>

definition clampCutoff :: "AudioEngine \<Rightarrow> real \<Rightarrow> real" where
  "clampCutoff s x = max 20 (min (nyquist s) x)"

subsection \<open>LFO routing to a voice\<close>

definition connectLFOToVoice :: "AudioEngine \<Rightarrow> PolyVoice \<Rightarrow> PolyVoice" where
  "connectLFOToVoice s voice =
     (if \<not> lfo_enabled (lfo (currentParams s)) then voice
      else
        let v1 = voice\<lparr>oscillators :=
                   map (\<lambda>osc. if lfoGainPitchNode s \<noteq> None \<and> pitchAmount (lfo (currentParams s)) > 0
                               then osc\<lparr>oscNode_detuneLFO := True\<rparr> else osc)
                       (oscillators voice)\<rparr>
        in if lfoGainFilterNode s \<noteq> None \<and> filterAmount (lfo (currentParams s)) > 0
           then v1\<lparr>filterNode := (filterNode v1)\<lparr>biquad_frequencyLFO := True\<rparr>\<rparr>
           else v1)"

definition disconnectLFOFromVoice :: "AudioEngine \<Rightarrow> PolyVoice \<Rightarrow> PolyVoice" where
  "disconnectLFOFromVoice s voice =
     (let v1 = (if lfoGainPitchNode s \<noteq> None
                then voice\<lparr>oscillators :=
                       map (\<lambda>osc. osc\<lparr>oscNode_detuneLFO := False\<rparr>) (oscillators voice)\<rparr>
                else voice)
      in if lfoGainFilterNode s \<noteq> None
         then v1\<lparr>filterNode := (filterNode v1)\<lparr>biquad_frequencyLFO := False\<rparr>\<rparr>
         else v1)"

subsection \<open>Stopping a voice\<close>

text \<open>
  The effect of \<^verbatim>\<open>stopVoice\<close> on the voice object. The oscillator and noise nodes are
  stopped (on a hard stop), disconnected and dropped: nothing refers to them afterwards, so
  they leave the state.
\<close>

definition stopVoice_voice :: "AudioEngine \<Rightarrow> PolyVoice \<Rightarrow> bool \<Rightarrow> PolyVoice" where
  "stopVoice_voice s voice hardStop =
     (let v1 = voice\<lparr>scheduledStopTimeouts := [], oscillators := [],
                     noiseNode := None, noiseGainNode := None\<rparr>;
          v2 = disconnectLFOFromVoice s v1;
          v3 = (if hardStop then
                  (let baseFilterCutoff =
                         (if noteTruthy (voice_note v2) \<and> keyboardTracking (filterParams (currentParams s)) > 0
                          then clampCutoff s (cutoff (filterParams (currentParams s))
                                 + (of_int (the (voice_note v2)) - 60)
                                   * (keyboardTracking (filterParams (currentParams s)) * 20))
                          else cutoff (filterParams (currentParams s)))
                   in v2\<lparr>vcaNode := setValueAtTime 0 (now s) (cancelScheduledValues (now s) (vcaNode v2)),
                         filterNode := (filterNode v2)\<lparr>biquad_frequency :=
                            setValueAtTime baseFilterCutoff (now s)
                              (cancelScheduledValues (now s) (biquad_frequency (filterNode v2)))\<rparr>\<rparr>)
                else v2);
          v4 = (if \<not> hardStop \<or> (hardStop \<and> voice_note v3 = None)
                then v3\<lparr>voice_note := None, velocity := 0, startTime := 0\<rparr>
                else v3)
      in v4\<lparr>isActive := False, isReleasing := False\<rparr>)"

definition stopVoice :: "AudioEngine \<Rightarrow> nat \<Rightarrow> bool \<Rightarrow> AudioEngine" where
  "stopVoice s i hardStop =
     s\<lparr>timers := clearTimeouts (scheduledStopTimeouts (voices s ! i)) (timers s),
       voices := (voices s)[i := stopVoice_voice s (voices s ! i) hardStop]\<rparr>"

subsection \<open>Voice allocation\<close>

text \<open>Sort the candidates, take the first, hard-stop it and return it.\<close>

definition stealOldest :: "AudioEngine \<Rightarrow> nat list \<Rightarrow> AudioEngine \<times> nat option" where
  "stealOldest s candidatesForStealing =
     (let voiceToSteal = hd (sortByStartTime (voices s) candidatesForStealing)
      in (stopVoice s voiceToSteal True, Some voiceToSteal))"

definition findVoiceForNoteOn :: "AudioEngine \<Rightarrow> int \<Rightarrow> AudioEngine \<times> nat option" where
  "findVoiceForNoteOn s n =
     (if length (voices s) = 0 then (s, None)
      else case findIndex (\<lambda>v. voice_note v = Some n \<and> (isActive v \<or> isReleasing v)) (voices s) of
        Some retriggerVoice \<Rightarrow> (stopVoice s retriggerVoice True, Some retriggerVoice)
      | None \<Rightarrow>
         (case findIndex (\<lambda>v. \<not> isActive v \<and> \<not> isReleasing v) (voices s) of
            Some freeVoice \<Rightarrow> (s, Some freeVoice)
          | None \<Rightarrow>
             (let onlyReleasing = voicesWhere (\<lambda>v. isReleasing v \<and> \<not> isActive v) (voices s) in
              if length onlyReleasing > 0 then stealOldest s onlyReleasing
              else
                let onlyActive = voicesWhere (\<lambda>v. isActive v \<and> \<not> isReleasing v) (voices s) in
                if length onlyActive > 0 then stealOldest s onlyActive
                else if length (voices s) > 0 then
                  (let nonFreeVoices = voicesWhere (\<lambda>v. isActive v \<or> isReleasing v) (voices s) in
                   if length nonFreeVoices > 0 then stealOldest s nonFreeVoices
                   else (s, None))
                else (s, None))))"

subsection \<open>Note on\<close>

definition resume :: "AudioContext \<Rightarrow> AudioContext" where
  "resume c = c\<lparr>resumeCalls := Suc (resumeCalls c)\<rparr>"

text \<open>The body of the loop over the oscillator descriptors, for a descriptor that is not skipped.\<close>

definition buildOscillator :: "AudioEngine \<Rightarrow> int \<Rightarrow> OscillatorParams \<Rightarrow> OscComponent" where
  "buildOscillator s n oscParam =
     (let baseFrequency = midiNoteToFrequency (of_int n + octave oscParam * 12);
          tunedFrequency = baseFrequency * 2 powr (tune oscParam / 1200)
      in \<lparr>oscNode_type = osc_waveform oscParam,
          oscNode_frequency =
            setValueAtTime (tunedFrequency * pitchBendMultiplier s) (now s) (newParam 440),
          oscNode_started = [now s],
          oscNode_stopped = [],
          oscNode_detuneLFO = False,
          gainNode_gain = setValueAtTime (osc_level oscParam) (now s) (newParam 1)\<rparr>)"

definition filterBaseCutoff :: "AudioEngine \<Rightarrow> int \<Rightarrow> real" where
  "filterBaseCutoff s n =
     (if keyboardTracking (filterParams (currentParams s)) > 0
      then clampCutoff s (cutoff (filterParams (currentParams s))
             + (of_int n - 60) * (keyboardTracking (filterParams (currentParams s)) * 20))
      else cutoff (filterParams (currentParams s)))"

definition filterEnvModAmount :: "AudioEngine \<Rightarrow> real" where
  "filterEnvModAmount s = envelopeAmount (filterParams (currentParams s)) * 5000"

definition filterAttackTarget :: "AudioEngine \<Rightarrow> int \<Rightarrow> real" where
  "filterAttackTarget s n = clampCutoff s (filterBaseCutoff s n + filterEnvModAmount s)"

definition filterSustainTarget :: "AudioEngine \<Rightarrow> int \<Rightarrow> real" where
  "filterSustainTarget s n =
     clampCutoff s (filterBaseCutoff s n
       + sustain (filterEnvelope (currentParams s)) * filterEnvModAmount s)"

text \<open>
  What \<^verbatim>\<open>noteOn\<close> does to the voice it was given, after allocation. A stale noise source
  or noise gain of the voice is stopped or silenced, disconnected, and replaced or dropped.
\<close>

definition noteOn_voice :: "AudioEngine \<Rightarrow> PolyVoice \<Rightarrow> int \<Rightarrow> real \<Rightarrow> PolyVoice" where
  "noteOn_voice s voice n vel =
     (let p = currentParams s;
          v1 = voice\<lparr>voice_note := Some n, velocity := vel, isActive := True,
                     isReleasing := False, startTime := now s,
                     scheduledStopTimeouts := [],
                     oscillators :=
                       map (buildOscillator s n)
                         (filter (\<lambda>oscParam. \<not> (\<not> osc_enabled oscParam \<or> osc_level oscParam = 0))
                            (oscillatorParams p))\<rparr>;
          v2 = (if noise_enabled (noise p) \<and> noise_level (noise p) > 0
                then v1\<lparr>noiseGainNode := Some (setValueAtTime (noise_level (noise p)) (now s) (newParam 1)),
                        noiseNode := Some \<lparr>noise_buffer = (if noise_type (noise p) = Pink then Pink else White),
                                           noise_loop = True,
                                           noise_started = [now s],
                                           noise_stopped = []\<rparr>\<rparr>
                else v1\<lparr>noiseGainNode := map_option (setValueAtTime 0 (now s)) (noiseGainNode v1),
                        noiseNode := None\<rparr>);
          v3 = v2\<lparr>filterNode := (filterNode v2)
                  \<lparr>biquad_type := filter_type (filterParams p),
                   biquad_Q := setValueAtTime (resonance (filterParams p)) (now s)
                                 (biquad_Q (filterNode v2))\<rparr>\<rparr>;
          v4 = v3\<lparr>vcaNode := applyEnvelope s (vcaNode v3) (ampEnvelope p) 0
                                (1.0 * (vel / 127)) (sustain (ampEnvelope p))\<rparr>;
          v5 = v4\<lparr>filterNode := (filterNode v4)\<lparr>biquad_frequency :=
                  linearRampToValueAtTime (filterSustainTarget s n)
                    (now s + max 0.001 (attack (filterEnvelope p)) + max 0.001 (decay (filterEnvelope p)))
                    (linearRampToValueAtTime (filterAttackTarget s n)
                       (now s + max 0.001 (attack (filterEnvelope p)))
                       (setValueAtTime (filterBaseCutoff s n) (now s)
                          (cancelScheduledValues (now s) (biquad_frequency (filterNode v4)))))\<rparr>\<rparr>
      in connectLFOToVoice s v5)"

text \<open>The first statement of \<^verbatim>\<open>noteOn\<close>: the state in which allocation then runs.\<close>

definition resumeIfSuspended :: "AudioEngine \<Rightarrow> AudioEngine" where
  "resumeIfSuspended s =
     (if ctx_state (audioContext s) = Suspended
      then s\<lparr>audioContext := resume (audioContext s)\<rparr> else s)"

definition noteOn :: "AudioEngine \<Rightarrow> int \<Rightarrow> real \<Rightarrow> AudioEngine" where
  "noteOn s n vel =
     (case findVoiceForNoteOn (resumeIfSuspended s) n of
        (s1, None) \<Rightarrow> s1
      | (s1, Some i) \<Rightarrow>
          s1\<lparr>timers := clearTimeouts (scheduledStopTimeouts (voices s1 ! i)) (timers s1),
             voices := (voices s1)[i := noteOn_voice s1 (voices s1 ! i) n vel]\<rparr>)"

subsection \<open>Note off and the cleanup timer\<close>

text \<open>The callback of \<^verbatim>\<open>voicesToEnd.forEach\<close>, for the voice at position \<open>i\<close>.\<close>

definition noteOff_voice :: "int \<Rightarrow> nat \<Rightarrow> AudioEngine \<Rightarrow> AudioEngine" where
  "noteOff_voice n i s =
     (let voice = voices s ! i in
      if \<not> isActive voice \<and> isReleasing voice \<and> voice_note voice \<noteq> Some n then s
      else
        let p = currentParams s;
            filterReleaseTarget =
              (if keyboardTracking (filterParams p) > 0 \<and> noteTruthy (voice_note voice)
               then clampCutoff s (cutoff (filterParams p)
                      + (of_int (the (voice_note voice)) - 60) * (keyboardTracking (filterParams p) * 20))
               else cutoff (filterParams p));
            totalReleaseTime = max (release (ampEnvelope p)) (release (filterEnvelope p));
            stopTime = now s + totalReleaseTime + 0.05;
            cleanupTimeoutId = nextTimerId s;
            voice' = voice
              \<lparr>isActive := False, isReleasing := True,
               vcaNode := releaseEnvelope s (vcaNode voice) (release (ampEnvelope p)) 0,
               filterNode := (filterNode voice)\<lparr>biquad_frequency :=
                  releaseEnvelope s (biquad_frequency (filterNode voice))
                    (release (filterEnvelope p)) filterReleaseTarget\<rparr>,
               oscillators := map (\<lambda>osc. osc\<lparr>oscNode_stopped := oscNode_stopped osc @ [stopTime]\<rparr>)
                                  (oscillators voice),
               noiseNode := map_option (\<lambda>nn. nn\<lparr>noise_stopped := noise_stopped nn @ [stopTime]\<rparr>)
                                       (noiseNode voice),
               scheduledStopTimeouts := scheduledStopTimeouts voice @ [cleanupTimeoutId]\<rparr>
        in s\<lparr>voices := (voices s)[i := voice'],
             timers := timers s @ [\<lparr>timer_id = cleanupTimeoutId,
                                    timer_delay = (totalReleaseTime + 0.1) * 1000,
                                    timer_voice = i, timer_note = n\<rparr>],
             nextTimerId := Suc cleanupTimeoutId\<rparr>)"

definition noteOff :: "AudioEngine \<Rightarrow> int \<Rightarrow> AudioEngine" where
  "noteOff s n =
     fold (noteOff_voice n)
       (voicesWhere (\<lambda>v. voice_note v = Some n \<and> (isActive v \<or> isReleasing v)) (voices s)) s"

text \<open>
  The host runs the pending callback with handle \<open>tid\<close>: the timer leaves the pending ones
  and the closure of \<^verbatim>\<open>noteOff\<close> runs on its captured voice and note.
\<close>

definition cleanupTimerFires :: "AudioEngine \<Rightarrow> nat \<Rightarrow> AudioEngine" where
  "cleanupTimerFires s tid =
     (case find (\<lambda>t. timer_id t = tid) (timers s) of
        None \<Rightarrow> s
      | Some t \<Rightarrow>
          let s1 = s\<lparr>timers := filter (\<lambda>u. timer_id u \<noteq> tid) (timers s)\<rparr>;
              voice = voices s1 ! timer_voice t
          in if isReleasing voice \<and> voice_note voice = Some (timer_note t)
             then stopVoice s1 (timer_voice t) False
             else s1)"

subsection \<open>Pitch bend\<close>

definition waveformString :: "Waveform \<Rightarrow> string" where
  "waveformString w = (case w of SINE \<Rightarrow> ''sine'' | SQUARE \<Rightarrow> ''square''
                        | SAWTOOTH \<Rightarrow> ''sawtooth'' | TRIANGLE \<Rightarrow> ''triangle'')"

fun digitsOf :: "nat \<Rightarrow> string" where
  "digitsOf k = (if k < 10 then [char_of (48 + k)]
                 else digitsOf (k div 10) @ [char_of (48 + k mod 10)])"

declare digitsOf.simps [simp del]

text \<open>The string that concatenation makes of an integral number.\<close>

definition numberToString :: "int \<Rightarrow> string" where
  "numberToString k = (if k < 0 then CHR ''-'' # digitsOf (nat (- k)) else digitsOf (nat k))"

text \<open>
  \<^verbatim>\<open>oscillators.find(p => p.id === type + note + index) || oscillators[index]\<close>, where
  \<open>None\<close> stands for \<^verbatim>\<open>undefined\<close>.
\<close>

definition lookupOscParam :: "SynthParams \<Rightarrow> OscComponent \<Rightarrow> int \<Rightarrow> nat \<Rightarrow> OscillatorParams option" where
  "lookupOscParam p oscComp n index =
     (case find (\<lambda>d. osc_id d = waveformString (oscNode_type oscComp) @ numberToString n
                                   @ numberToString (int index))
                (oscillatorParams p) of
        Some d \<Rightarrow> Some d
      | None \<Rightarrow> (if index < length (oscillatorParams p)
                 then Some (oscillatorParams p ! index) else None))"

definition bendOscillator :: "AudioEngine \<Rightarrow> int \<Rightarrow> OscComponent \<times> nat \<Rightarrow> OscComponent" where
  "bendOscillator s n oi =
     (case oi of (oscComp, index) \<Rightarrow>
        (case lookupOscParam (currentParams s) oscComp n index of
           None \<Rightarrow> oscComp
         | Some oscParam \<Rightarrow>
             if osc_enabled oscParam then
               (let baseFrequency = midiNoteToFrequency (of_int n + octave oscParam * 12);
                    tunedFrequency = baseFrequency * 2 powr (tune oscParam / 1200);
                    newFrequency = tunedFrequency * pitchBendMultiplier s
                in oscComp\<lparr>oscNode_frequency :=
                     linearRampToValueAtTime newFrequency (now s + 0.01) (oscNode_frequency oscComp)\<rparr>)
             else oscComp))"

definition setPitchBend :: "AudioEngine \<Rightarrow> real \<Rightarrow> AudioEngine" where
  "setPitchBend s bendValue =
     (let s1 = s\<lparr>pitchBendMultiplier := 2 powr ((bendValue * 2) / 12)\<rparr>
      in s1\<lparr>voices :=
           map (\<lambda>voice.
                  if (isActive voice \<or> isReleasing voice) \<and> voice_note voice \<noteq> None
                  then voice\<lparr>oscillators :=
                         map (bendOscillator s1 (the (voice_note voice)))
                             (zip (oscillators voice) [0..<length (oscillators voice)])\<rparr>
                  else voice)
               (voices s1)\<rparr>)"

subsection \<open>The shared LFO and parameter updates\<close>

text \<open>
  \<^verbatim>\<open>node.disconnect()\<close> without an argument removes every connection leaving the tap, which
  is what \<^const>\<open>disconnectLFOFromVoice\<close> does voice by voice while the taps still exist.
\<close>

definition teardownLFO :: "AudioEngine \<Rightarrow> AudioEngine" where
  "teardownLFO s =
     s\<lparr>voices := map (disconnectLFOFromVoice s) (voices s),
       lfoOscNode := None, lfoGainPitchNode := None, lfoGainFilterNode := None\<rparr>"

definition setupLFO :: "AudioEngine \<Rightarrow> LFOParams \<Rightarrow> AudioEngine" where
  "setupLFO s lfoParams =
     (let s1 = teardownLFO s in
      if \<not> lfo_enabled lfoParams then s1
      else
        let s2 = s1\<lparr>lfoOscNode := Some \<lparr>lfoNode_type = lfo_waveform lfoParams,
                                         lfoNode_frequency =
                                           setValueAtTime (rate lfoParams) (now s1) (newParam 440),
                                         lfoNode_started = True\<rparr>,
                    lfoGainPitchNode :=
                      Some (setValueAtTime (pitchAmount lfoParams * 100) (now s1) (newParam 1)),
                    lfoGainFilterNode :=
                      Some (setValueAtTime (filterAmount lfoParams * 1000) (now s1) (newParam 1))\<rparr>
        in s2\<lparr>voices := map (\<lambda>voice. if isActive voice \<and> \<not> isReleasing voice
                                      then connectLFOToVoice s2 voice else voice)
                              (voices s2)\<rparr>)"

definition applyParamsToEngineGlobally :: "AudioEngine \<Rightarrow> SynthParams \<Rightarrow> AudioEngine" where
  "applyParamsToEngineGlobally s params =
     (let s1 = s\<lparr>masterGain := setValueAtTime (masterVolume params) (now s) (masterGain s)\<rparr> in
      if lfo_enabled (lfo params) then
        (let s2 = (if (case lfoOscNode s1 of
                         None \<Rightarrow> True
                       | Some l \<Rightarrow> lfoNode_type l \<noteq> lfo_waveform (lfo params)
                                   \<or> pvalue (lfoNode_frequency l) \<noteq> rate (lfo params))
                   then setupLFO s1 (lfo params) else s1)
         in s2\<lparr>lfoGainPitchNode :=
                 map_option (setValueAtTime (pitchAmount (lfo params) * 100) (now s))
                            (lfoGainPitchNode s2),
               lfoGainFilterNode :=
                 map_option (setValueAtTime (filterAmount (lfo params) * 1000) (now s))
                            (lfoGainFilterNode s2)\<rparr>)
      else if lfoOscNode s1 \<noteq> None then teardownLFO s1
      else s1)"

definition updateParams :: "AudioEngine \<Rightarrow> SynthParams \<Rightarrow> AudioEngine" where
  "updateParams s newParams =
     (let oldParams = currentParams s;
          s1 = s\<lparr>currentParams := newParams\<rparr>;
          s2 = applyParamsToEngineGlobally s1 (currentParams s1);
          s3 = (if filter_type (filterParams oldParams) \<noteq> filter_type (filterParams (currentParams s2))
                   \<or> resonance (filterParams oldParams) \<noteq> resonance (filterParams (currentParams s2))
                then s2\<lparr>voices :=
                       map (\<lambda>voice.
                              if isActive voice \<and> \<not> isReleasing voice then
                                voice\<lparr>filterNode := (filterNode voice)
                                  \<lparr>biquad_type := filter_type (filterParams (currentParams s2)),
                                   biquad_Q :=
                                     (if pvalue (biquad_Q (filterNode voice))
                                           \<noteq> resonance (filterParams (currentParams s2))
                                      then setValueAtTime (resonance (filterParams (currentParams s2)))
                                             (now s2) (biquad_Q (filterNode voice))
                                      else biquad_Q (filterNode voice))\<rparr>\<rparr>
                              else voice)
                           (voices s2)\<rparr>
                else s2);
          lfoConfigChanged =
            (lfo_enabled (lfo oldParams) \<noteq> lfo_enabled (lfo (currentParams s3))
             \<or> lfo_waveform (lfo oldParams) \<noteq> lfo_waveform (lfo (currentParams s3))
             \<or> rate (lfo oldParams) \<noteq> rate (lfo (currentParams s3))
             \<or> pitchAmount (lfo oldParams) \<noteq> pitchAmount (lfo (currentParams s3))
             \<or> filterAmount (lfo oldParams) \<noteq> filterAmount (lfo (currentParams s3)))
      in if lfoConfigChanged then
           (let s4 = (if lfo_enabled (lfo (currentParams s3))
                      then setupLFO s3 (lfo (currentParams s3)) else teardownLFO s3)
            in s4\<lparr>voices :=
                 map (\<lambda>voice.
                        if isActive voice \<and> \<not> isReleasing voice then
                          (let d = disconnectLFOFromVoice s4 voice
                           in if lfo_enabled (lfo (currentParams s4))
                              then connectLFOToVoice s4 d else d)
                        else voice)
                     (voices s4)\<rparr>)
         else s3)"

subsection \<open>Dispose and construction\<close>

definition closeContext :: "AudioContext \<Rightarrow> AudioContext" where
  "closeContext c = c\<lparr>closeCalls := Suc (closeCalls c)\<rparr>"

definition dispose :: "AudioEngine \<Rightarrow> AudioEngine" where
  "dispose s =
     (let s1 = fold (\<lambda>i s'. stopVoice s' i True) [0..<length (voices s)] s;
          s2 = teardownLFO s1;
          s3 = s2\<lparr>masterConnected := False\<rparr>
      in if ctx_state (audioContext s3) \<noteq> Closed
         then s3\<lparr>audioContext := closeContext (audioContext s3)\<rparr>
         else s3)"

text \<open>
  A voice as the constructor pushes it. The filter and gain nodes carry the defaults of
  freshly created nodes of the backend (low-pass, 350 Hz, Q 1; gain 1), and the gain of the
  amplifier is then set to 0.
\<close>

definition newVoice :: "nat \<Rightarrow> PolyVoice" where
  "newVoice i =
     \<lparr>voice_id = i, voice_note = None, velocity = 0, isActive = False, isReleasing = False,
      startTime = 0, oscillators = [], noiseNode = None, noiseGainNode = None,
      filterNode = \<lparr>biquad_type = ''lowpass'', biquad_Q = newParam 1,
                    biquad_frequency = newParam 350, biquad_frequencyLFO = False\<rparr>,
      vcaNode = (newParam 1)\<lparr>pvalue := 0\<rparr>,
      scheduledStopTimeouts = []\<rparr>"

text \<open>
  The constructor, for a pool of \<open>polyphony\<close> voices and the audio context the host
  hands out. No timer of the engine is pending at construction.
\<close>

definition newEngine :: "nat \<Rightarrow> AudioContext \<Rightarrow> SynthParams \<Rightarrow> AudioEngine" where
  "newEngine polyphony ctx initialParams =
     (let s = \<lparr>audioContext = ctx, masterGain = newParam 1, masterConnected = True,
               lfoOscNode = None, lfoGainPitchNode = None, lfoGainFilterNode = None,
               voices = map newVoice [0..<polyphony],
               currentParams = initialParams, pitchBendMultiplier = 1.0,
               timers = [], nextTimerId = 1\<rparr>
      in applyParamsToEngineGlobally s (currentParams s))"

definition constructor :: "AudioContext \<Rightarrow> SynthParams \<Rightarrow> AudioEngine" where
  "constructor ctx initialParams = newEngine MAX_POLYPHONY ctx initialParams"

subsection \<open>Runs of the engine\<close>

text \<open>
  What can happen to a constructed engine: a call of one of its public methods, or a step
  of its environment (a pending timer fires, the clock of the audio context advances, the
  context changes state, the backend reports a new current value of a parameter the
  engine reads back).
\<close>

datatype ParamRef = VcaGain nat | FilterQ nat | FilterFrequency nat | LfoFrequency

datatype Event =
    NoteOn int real
  | NoteOff int
  | PitchBend real
  | UpdateParams SynthParams
  | Dispose
  | TimerFires nat
  | ClockAdvances real
  | ContextBecomes ContextState
  | BackendValue ParamRef real

definition backendValue :: "AudioEngine \<Rightarrow> ParamRef \<Rightarrow> real \<Rightarrow> AudioEngine" where
  "backendValue s r x =
     (case r of
        VcaGain i \<Rightarrow>
          (if i < length (voices s)
           then s\<lparr>voices := (voices s)[i := (voices s ! i)\<lparr>vcaNode := (vcaNode (voices s ! i))\<lparr>pvalue := x\<rparr>\<rparr>]\<rparr>
           else s)
      | FilterQ i \<Rightarrow>
          (if i < length (voices s)
           then s\<lparr>voices := (voices s)[i := (voices s ! i)\<lparr>filterNode := (filterNode (voices s ! i))
                    \<lparr>biquad_Q := (biquad_Q (filterNode (voices s ! i)))\<lparr>pvalue := x\<rparr>\<rparr>\<rparr>]\<rparr>
           else s)
      | FilterFrequency i \<Rightarrow>
          (if i < length (voices s)
           then s\<lparr>voices := (voices s)[i := (voices s ! i)\<lparr>filterNode := (filterNode (voices s ! i))
                    \<lparr>biquad_frequency := (biquad_frequency (filterNode (voices s ! i)))\<lparr>pvalue := x\<rparr>\<rparr>\<rparr>]\<rparr>
           else s)
      | LfoFrequency \<Rightarrow>
          s\<lparr>lfoOscNode := map_option (\<lambda>l. l\<lparr>lfoNode_frequency := (lfoNode_frequency l)\<lparr>pvalue := x\<rparr>\<rparr>)
                                      (lfoOscNode s)\<rparr>)"

fun step :: "AudioEngine \<Rightarrow> Event \<Rightarrow> AudioEngine" where
  "step s (NoteOn n vel) = noteOn s n vel"
| "step s (NoteOff n) = noteOff s n"
| "step s (PitchBend b) = setPitchBend s b"
| "step s (UpdateParams p) = updateParams s p"
| "step s Dispose = dispose s"
| "step s (TimerFires tid) = cleanupTimerFires s tid"
| "step s (ClockAdvances d) =
     (if d \<ge> 0 then s\<lparr>audioContext := (audioContext s)\<lparr>currentTime := currentTime (audioContext s) + d\<rparr>\<rparr>
      else s)"
| "step s (ContextBecomes st) = s\<lparr>audioContext := (audioContext s)\<lparr>ctx_state := st\<rparr>\<rparr>"
| "step s (BackendValue r x) = backendValue s r x"

definition run :: "AudioEngine \<Rightarrow> Event list \<Rightarrow> AudioEngine" where
  "run s evs = foldl step s evs"

subsection \<open>Concrete inputs\<close>

text \<open>The initial parameter set of the application (\<^verbatim>\<open>constants.ts\<close>).\<close>

definition INITIAL_SYNTH_PARAMS :: SynthParams where
  "INITIAL_SYNTH_PARAMS =
     \<lparr>masterVolume = 0.7, glide = 0.05,
      oscillatorParams =
        [\<lparr>osc_id = ''osc1'', osc_waveform = SAWTOOTH, octave = 0, tune = 0,
          osc_level = 0.8, osc_enabled = True\<rparr>,
         \<lparr>osc_id = ''osc2'', osc_waveform = SQUARE, octave = 0, tune = 0.01,
          osc_level = 0.6, osc_enabled = True\<rparr>,
         \<lparr>osc_id = ''osc3'', osc_waveform = SAWTOOTH, octave = -1, tune = 0,
          osc_level = 0.0, osc_enabled = False\<rparr>],
      noise = \<lparr>noise_type = White, noise_level = 0.0, noise_enabled = False\<rparr>,
      filterParams = \<lparr>cutoff = 5000, resonance = 1, envelopeAmount = 0.5,
                      keyboardTracking = 0.5, filter_type = ''lowpass''\<rparr>,
      ampEnvelope = \<lparr>attack = 0.01, decay = 0.3, sustain = 0.8, release = 0.5\<rparr>,
      filterEnvelope = \<lparr>attack = 0.05, decay = 0.2, sustain = 0.5, release = 0.4\<rparr>,
      lfo = \<lparr>lfo_waveform = TRIANGLE, rate = 5, pitchAmount = 0, filterAmount = 0,
             lfo_enabled = False\<rparr>\<rparr>"

text \<open>A running audio context at 44.1 kHz whose clock reads 0.\<close>

definition exampleContext :: AudioContext where
  "exampleContext = \<lparr>currentTime = 0, sampleRate = 44100, ctx_state = Running,
                      resumeCalls = 0, closeCalls = 0\<rparr>"

subsection \<open>Vocabulary of the allocation policy\<close>

text \<open>
  The classes of voices the allocation policy speaks of, as the specification words them,
  and what it means to be the first voice of a class in pool order and the oldest voice
  of a class (least start time; among equally old ones, the first in pool order).
\<close>

definition holdsNote :: "int \<Rightarrow> PolyVoice \<Rightarrow> bool" where
  "holdsNote n v = (voice_note v = Some n \<and> (isActive v \<or> isReleasing v))"

definition isFree :: "PolyVoice \<Rightarrow> bool" where
  "isFree v = (\<not> isActive v \<and> \<not> isReleasing v)"

definition onlyReleasing :: "PolyVoice \<Rightarrow> bool" where
  "onlyReleasing v = (isReleasing v \<and> \<not> isActive v)"

definition onlyActive :: "PolyVoice \<Rightarrow> bool" where
  "onlyActive v = (isActive v \<and> \<not> isReleasing v)"

definition nonFree :: "PolyVoice \<Rightarrow> bool" where
  "nonFree v = (isActive v \<or> isReleasing v)"

definition firstWhere :: "(PolyVoice \<Rightarrow> bool) \<Rightarrow> PolyVoice list \<Rightarrow> nat \<Rightarrow> bool" where
  "firstWhere C vs i = (i < length vs \<and> C (vs ! i) \<and> (\<forall>j \<in> set [0..<i]. \<not> C (vs ! j)))"

definition oldestAmong :: "(PolyVoice \<Rightarrow> bool) \<Rightarrow> PolyVoice list \<Rightarrow> nat \<Rightarrow> bool" where
  "oldestAmong C vs i =
     (i < length vs \<and> C (vs ! i)
      \<and> (\<forall>j \<in> set [0..<length vs]. C (vs ! j) \<longrightarrow> startTime (vs ! i) \<le> startTime (vs ! j))
      \<and> (\<forall>j \<in> set [0..<i]. C (vs ! j) \<longrightarrow> startTime (vs ! i) < startTime (vs ! j)))"

text \<open>The constructed engine after one note-on.\<close>

definition oneNote :: AudioEngine where
  "oneNote = noteOn (constructor exampleContext INITIAL_SYNTH_PARAMS) 60 100"

text \<open>An engine configured with zero polyphony, on a suspended audio context.\<close>

definition emptyPool :: AudioEngine where
  "emptyPool = newEngine 0 (exampleContext\<lparr>ctx_state := Suspended\<rparr>) INITIAL_SYNTH_PARAMS"

subsection \<open>Invariants of the voice pool\<close>

text \<open>
  The fields of a voice that the allocation policy and the cleanup timers depend on, and
  three properties of an engine state: no two voices hold the same note while active or
  releasing; a voice that is neither active nor releasing has no oscillator or noise component
  and no cleanup timer handle; every pending timer of the host is recorded on the voice its
  callback refers to.
\<close>

definition cleanNodes :: "PolyVoice \<Rightarrow> bool" where
  "cleanNodes v = (oscillators v = [] \<and> noiseNode v = None \<and> noiseGainNode v = None)"

definition voiceCore :: "PolyVoice \<Rightarrow> int option \<times> bool \<times> bool \<times> bool \<times> nat list" where
  "voiceCore v = (voice_note v, isActive v, isReleasing v, cleanNodes v, scheduledStopTimeouts v)"

definition uniqueNotes :: "AudioEngine \<Rightarrow> bool" where
  "uniqueNotes s =
     (\<forall>i<length (voices s). \<forall>j<length (voices s). \<forall>n.
        holdsNote n (voices s ! i) \<and> holdsNote n (voices s ! j) \<longrightarrow> i = j)"

definition freeClean :: "AudioEngine \<Rightarrow> bool" where
  "freeClean s =
     (\<forall>i<length (voices s). isFree (voices s ! i) \<longrightarrow>
        cleanNodes (voices s ! i) \<and> scheduledStopTimeouts (voices s ! i) = [])"

definition timersOwned :: "AudioEngine \<Rightarrow> bool" where
  "timersOwned s =
     (\<forall>t \<in> set (timers s). timer_voice t < length (voices s)
        \<and> timer_id t \<in> set (scheduledStopTimeouts (voices s ! timer_voice t)))"

definition goodState :: "AudioEngine \<Rightarrow> bool" where
  "goodState s = (uniqueNotes s \<and> freeClean s \<and> timersOwned s)"

subsection \<open>The filter base cutoff as the specification words it\<close>

text \<open>
  The specification's per-note derivation of the filter base cutoff: the configured cutoff,
  shifted by (note - 60) * keyboardTracking * 20 when tracking is positive, then clamped to
  the range from 20 Hz to the Nyquist frequency. It follows the specification's sentence,
  not the code, and is compared with \<^const>\<open>filterBaseCutoff\<close>.
\<close>

definition spec_filterBaseCutoff :: "AudioEngine \<Rightarrow> int \<Rightarrow> real" where
  "spec_filterBaseCutoff s n =
     clampCutoff s (cutoff (filterParams (currentParams s))
       + (if keyboardTracking (filterParams (currentParams s)) > 0
          then (of_int n - 60) * keyboardTracking (filterParams (currentParams s)) * 20
          else 0))"

text \<open>
  The engine on a 16 kHz audio context, with the cutoff at 15 kHz and keyboard tracking off.
\<close>

definition lowRateEngine :: AudioEngine where
  "lowRateEngine =
     constructor (exampleContext\<lparr>sampleRate := 16000\<rparr>)
       (INITIAL_SYNTH_PARAMS\<lparr>filterParams :=
          (filterParams INITIAL_SYNTH_PARAMS)\<lparr>cutoff := 15000, keyboardTracking := 0\<rparr>\<rparr>)"

subsection \<open>Oscillator configurations with a skipped first descriptor\<close>

text \<open>
  Two parameter sets in which the first oscillator descriptor builds no oscillator at
  note-on: in the first it is enabled at level 0 and the second descriptor sounds an octave
  up; in the second it is disabled.
\<close>

definition levelZeroFirst :: SynthParams where
  "levelZeroFirst = INITIAL_SYNTH_PARAMS\<lparr>oscillatorParams :=
     [\<lparr>osc_id = ''osc1'', osc_waveform = SAWTOOTH, octave = 0, tune = 0,
       osc_level = 0, osc_enabled = True\<rparr>,
      \<lparr>osc_id = ''osc2'', osc_waveform = SQUARE, octave = 1, tune = 0,
       osc_level = 0.6, osc_enabled = True\<rparr>]\<rparr>"

definition disabledFirst :: SynthParams where
  "disabledFirst = INITIAL_SYNTH_PARAMS\<lparr>oscillatorParams :=
     [\<lparr>osc_id = ''osc1'', osc_waveform = SAWTOOTH, octave = 0, tune = 0,
       osc_level = 0.8, osc_enabled = False\<rparr>,
      \<lparr>osc_id = ''osc2'', osc_waveform = SQUARE, octave = 0, tune = 0,
       osc_level = 0.6, osc_enabled = True\<rparr>]\<rparr>"

text \<open>An audio context whose clock reads 2 seconds when the engine is constructed.\<close>

definition laterContext :: AudioContext where
  "laterContext = exampleContext\<lparr>currentTime := 2\<rparr>"

section \<open>Verified properties\<close>

subsection \<open>Facts about the concrete inputs\<close>

lemma now_constructor: "now (constructor exampleContext INITIAL_SYNTH_PARAMS) = 0"
  by (simp add: constructor_def newEngine_def applyParamsToEngineGlobally_def now_def
      INITIAL_SYNTH_PARAMS_def exampleContext_def Let_def)

subsection \<open>Envelope scheduling\<close>

text \<open>
  Claim C5. For every parameter, envelope, base value, peak value and sustain proportion,
  \<^const>\<open>applyEnvelope\<close> issues exactly four calls on the parameter, after those it had
  received: cancel the scheduled values from now, set the base value at now, ramp linearly
  to the peak at now + max(0.001, attack), ramp linearly to sustain proportion * peak at
  now + max(0.001, attack) + max(0.001, decay). The current value of the parameter is not
  touched, and the three times are strictly increasing, so no segment has zero duration.
\<close>

theorem applyEnvelope_schedule:
  "calls (applyEnvelope s param envelope baseValue peakValue sustainLevelProportion) =
     calls param @
       [CancelScheduledValues (now s),
        SetValueAtTime baseValue (now s),
        LinearRampToValueAtTime peakValue (now s + max 0.001 (attack envelope)),
        LinearRampToValueAtTime (sustainLevelProportion * peakValue)
          (now s + max 0.001 (attack envelope) + max 0.001 (decay envelope))]
   \<and> pvalue (applyEnvelope s param envelope baseValue peakValue sustainLevelProportion)
       = pvalue param
   \<and> now s < now s + max 0.001 (attack envelope)
   \<and> now s + max 0.001 (attack envelope)
        < now s + max 0.001 (attack envelope) + max 0.001 (decay envelope)"
  by (simp add: applyEnvelope_def linearRampToValueAtTime_def setValueAtTime_def
      cancelScheduledValues_def max_def)

theorem applyEnvelope_schedule_witness:
  "calls (applyEnvelope (constructor exampleContext INITIAL_SYNTH_PARAMS) (newParam 0)
            \<lparr>attack = 0, decay = 0.3, sustain = 0.8, release = 0.5\<rparr> 0 (100 / 127) 0.8) =
     [CancelScheduledValues 0, SetValueAtTime 0 0,
      LinearRampToValueAtTime (100 / 127) 0.001,
      LinearRampToValueAtTime (80 / 127) 0.301]"
  using applyEnvelope_schedule [of "constructor exampleContext INITIAL_SYNTH_PARAMS" "newParam 0"
      "\<lparr>attack = 0, decay = 0.3, sustain = 0.8, release = 0.5\<rparr>" 0 "100 / 127" "0.8"]
  by (simp add: now_constructor newParam_def)

lemma voices_newEngine: "voices (newEngine k ctx p) = map newVoice [0..<k]"
  by (simp add: newEngine_def applyParamsToEngineGlobally_def setupLFO_def teardownLFO_def
      disconnectLFOFromVoice_def newVoice_def Let_def)

lemma oneNote_voices:
  "map (\<lambda>v. (voice_note v, isActive v, isReleasing v, startTime v)) (voices oneNote) =
     (Some 60, True, False, 0) # replicate 7 (None, False, False, 0)"
  by (simp add: oneNote_def noteOn_def resumeIfSuspended_def constructor_def voices_newEngine
      MAX_POLYPHONY_def findVoiceForNoteOn_def newEngine_def applyParamsToEngineGlobally_def exampleContext_def
      INITIAL_SYNTH_PARAMS_def Let_def noteOn_voice_def connectLFOToVoice_def newVoice_def
      now_def numeral_eq_Suc upt_rec)

subsection \<open>Finding and sorting\<close>

lemmas param_defs = cancelScheduledValues_def setValueAtTime_def linearRampToValueAtTime_def
  newParam_def

lemma findIndex_None: "findIndex P xs = None \<longleftrightarrow> (\<forall>x \<in> set xs. \<not> P x)"
  by (induction xs) auto

lemma findIndex_Some:
  "findIndex P xs = Some i \<Longrightarrow> i < length xs \<and> P (xs ! i) \<and> (\<forall>j<i. \<not> P (xs ! j))"
proof (induction xs arbitrary: i)
  case Nil
  then show ?case by simp
next
  case (Cons x xs)
  show ?case
  proof (cases "P x")
    case True
    with Cons.prems show ?thesis by simp
  next
    case False
    with Cons.prems obtain k where k: "findIndex P xs = Some k" "i = Suc k"
      by auto
    from Cons.IH [OF k(1)] False k(2) show ?thesis
      by (auto simp: nth_Cons split: nat.splits)
  qed
qed

lemma set_voicesWhere: "set (voicesWhere C vs) = {i. i < length vs \<and> C (vs ! i)}"
  by (auto simp: voicesWhere_def)

lemma voicesWhere_nonempty: "voicesWhere C vs \<noteq> [] \<longleftrightarrow> (\<exists>v \<in> set vs. C v)"
proof -
  have "voicesWhere C vs \<noteq> [] \<longleftrightarrow> set (voicesWhere C vs) \<noteq> {}" by simp
  also have "\<dots> \<longleftrightarrow> (\<exists>i<length vs. C (vs ! i))" by (auto simp: set_voicesWhere)
  also have "\<dots> \<longleftrightarrow> (\<exists>v \<in> set vs. C v)" by (metis in_set_conv_nth)
  finally show ?thesis .
qed

lemma voicesWhere_sorted: "sorted_wrt (<) (voicesWhere C vs)"
  by (simp add: voicesWhere_def sorted_wrt_filter)

text \<open>The head of a stable sort is the first element of the input with the least key.\<close>

lemma hd_sort_key_min:
  assumes "xs \<noteq> []"
  shows "hd (sort_key f xs) \<in> set xs \<and> (\<forall>y \<in> set xs. f (hd (sort_key f xs)) \<le> f y)"
proof -
  let ?ys = "sort_key f xs"
  from assms have ne: "?ys \<noteq> []" by (metis length_0_conv length_sort)
  then have "hd ?ys \<in> set ?ys" by (rule hd_in_set)
  then have 1: "hd ?ys \<in> set xs" by (simp only: set_sort)
  have "sorted (map f ?ys)" by simp
  with ne have "\<forall>y \<in> set ?ys. f (hd ?ys) \<le> f y"
    by (cases ?ys) auto
  with 1 show ?thesis by simp
qed

lemma hd_sort_key_first:
  assumes "xs \<noteq> []"
  shows "\<exists>as bs. xs = as @ hd (sort_key f xs) # bs \<and> (\<forall>a \<in> set as. f (hd (sort_key f xs)) < f a)"
proof -
  let ?ys = "sort_key f xs"
  let ?m = "hd ?ys"
  let ?k = "f ?m"
  from assms have ne: "?ys \<noteq> []" by (metis length_0_conv length_sort)
  then obtain zs where ys: "?ys = ?m # zs" by (cases ?ys) auto
  have "filter (\<lambda>y. f y = ?k) ?ys = filter (\<lambda>y. f y = ?k) xs"
    by (rule sort_key_stable)
  moreover have "filter (\<lambda>y. f y = ?k) ?ys = ?m # filter (\<lambda>y. f y = ?k) zs"
    by (subst ys) simp
  ultimately have "filter (\<lambda>y. f y = ?k) xs = ?m # filter (\<lambda>y. f y = ?k) zs" by simp
  then obtain as bs where xs: "xs = as @ ?m # bs" and as: "\<forall>a \<in> set as. f a \<noteq> ?k"
    by (auto simp: filter_eq_Cons_iff)
  have "\<forall>a \<in> set as. a \<in> set xs" by (subst xs) simp
  with hd_sort_key_min [OF assms, of f] have "\<forall>a \<in> set as. ?k \<le> f a" by blast
  with as have "\<forall>a \<in> set as. ?k < f a" by (auto simp: less_le)
  with xs show ?thesis by blast
qed

subsection \<open>The allocation policy\<close>

lemma stealOldest_oldest:
  assumes "voicesWhere C (voices s) \<noteq> []"
  shows "\<exists>i. oldestAmong C (voices s) i
           \<and> stealOldest s (voicesWhere C (voices s)) = (stopVoice s i True, Some i)"
proof -
  let ?vs = "voices s"
  let ?xs = "voicesWhere C ?vs"
  let ?f = "\<lambda>i. startTime (?vs ! i)"
  let ?m = "hd (sort_key ?f ?xs)"
  from hd_sort_key_min [OF assms, of ?f]
  have m: "?m \<in> set ?xs" and le: "\<forall>y \<in> set ?xs. ?f ?m \<le> ?f y" by auto
  from hd_sort_key_first [OF assms, of ?f]
  obtain as bs where xs: "?xs = as @ ?m # bs" and lt: "\<forall>a \<in> set as. ?f ?m < ?f a"
    by blast
  have "sorted_wrt (<) (as @ ?m # bs)" using voicesWhere_sorted [of C ?vs] xs by simp
  then have bs: "\<forall>b \<in> set bs. ?m < b" by (simp add: sorted_wrt_append)
  have before: "?f ?m < ?f j" if "j < ?m" "C (?vs ! j)" for j
  proof -
    from m have "?m < length ?vs" by (simp add: set_voicesWhere)
    with that have "j \<in> set ?xs" by (simp add: set_voicesWhere)
    then have "j \<in> set (as @ ?m # bs)" using xs by simp
    with that(1) bs have "j \<in> set as" by auto
    with lt show ?thesis by blast
  qed
  from m le before have "oldestAmong C ?vs ?m"
    by (auto simp: oldestAmong_def set_voicesWhere)
  moreover have "stealOldest s ?xs = (stopVoice s ?m True, Some ?m)"
    by (simp add: stealOldest_def sortByStartTime_def Let_def)
  ultimately show ?thesis by blast
qed

lemma findIndex_firstWhere:
  "findIndex C vs = Some i \<Longrightarrow> firstWhere C vs i"
  using findIndex_Some [of C vs i] by (simp add: firstWhere_def)

lemma findVoiceForNoteOn_cases:
  assumes "voices s \<noteq> []"
  shows
    "if \<exists>v \<in> set (voices s). holdsNote n v then
       \<exists>i. firstWhere (holdsNote n) (voices s) i
            \<and> findVoiceForNoteOn s n = (stopVoice s i True, Some i)
     else if \<exists>v \<in> set (voices s). isFree v then
       \<exists>i. firstWhere isFree (voices s) i \<and> findVoiceForNoteOn s n = (s, Some i)
     else if \<exists>v \<in> set (voices s). onlyReleasing v then
       \<exists>i. oldestAmong onlyReleasing (voices s) i
            \<and> findVoiceForNoteOn s n = (stopVoice s i True, Some i)
     else if \<exists>v \<in> set (voices s). onlyActive v then
       \<exists>i. oldestAmong onlyActive (voices s) i
            \<and> findVoiceForNoteOn s n = (stopVoice s i True, Some i)
     else
       \<exists>i. oldestAmong nonFree (voices s) i
            \<and> findVoiceForNoteOn s n = (stopVoice s i True, Some i)"
proof -
  let ?vs = "voices s"
  have fold1: "(\<lambda>v. voice_note v = Some n \<and> (isActive v \<or> isReleasing v)) = holdsNote n"
    by (simp add: holdsNote_def fun_eq_iff)
  have fold2: "(\<lambda>v. \<not> isActive v \<and> \<not> isReleasing v) = isFree"
    by (simp add: isFree_def fun_eq_iff)
  have fold3: "(\<lambda>v. isReleasing v \<and> \<not> isActive v) = onlyReleasing"
    by (simp add: onlyReleasing_def fun_eq_iff)
  have fold4: "(\<lambda>v. isActive v \<and> \<not> isReleasing v) = onlyActive"
    by (simp add: onlyActive_def fun_eq_iff)
  have fold5: "(\<lambda>v. isActive v \<or> isReleasing v) = nonFree"
    by (simp add: nonFree_def fun_eq_iff)
  have unf: "findVoiceForNoteOn s n =
     (case findIndex (holdsNote n) ?vs of
        Some i \<Rightarrow> (stopVoice s i True, Some i)
      | None \<Rightarrow>
         (case findIndex isFree ?vs of
            Some i \<Rightarrow> (s, Some i)
          | None \<Rightarrow>
              if voicesWhere onlyReleasing ?vs \<noteq> [] then stealOldest s (voicesWhere onlyReleasing ?vs)
              else if voicesWhere onlyActive ?vs \<noteq> [] then stealOldest s (voicesWhere onlyActive ?vs)
              else if voicesWhere nonFree ?vs \<noteq> [] then stealOldest s (voicesWhere nonFree ?vs)
              else (s, None)))"
    using assms
    by (simp add: findVoiceForNoteOn_def fold1 fold2 fold3 fold4 fold5 Let_def
        split: option.splits)
  show ?thesis
  proof (cases "findIndex (holdsNote n) ?vs")
    case (Some i)
    then have "\<exists>v \<in> set ?vs. holdsNote n v"
      by (metis findIndex_None option.distinct(1))
    with Some findIndex_firstWhere [OF Some] unf show ?thesis by auto
  next
    case None
    then have no1: "\<not> (\<exists>v \<in> set ?vs. holdsNote n v)" by (simp add: findIndex_None)
    show ?thesis
    proof (cases "findIndex isFree ?vs")
      case (Some i)
      then have "\<exists>v \<in> set ?vs. isFree v"
        by (metis findIndex_None option.distinct(1))
      with no1 None Some findIndex_firstWhere [OF Some] unf show ?thesis by auto
    next
      case None2: None
      then have no2: "\<not> (\<exists>v \<in> set ?vs. isFree v)" by (simp add: findIndex_None)
      from assms obtain v where v: "v \<in> set ?vs" by (cases ?vs) auto
      with no2 have "nonFree v" by (auto simp: isFree_def nonFree_def)
      with v have nf: "voicesWhere nonFree ?vs \<noteq> []" by (auto simp: voicesWhere_nonempty)
      show ?thesis
        using no1 no2 None None2 unf nf
          stealOldest_oldest [of onlyReleasing s] stealOldest_oldest [of onlyActive s]
          stealOldest_oldest [of nonFree s]
        by (simp add: voicesWhere_nonempty)
    qed
  qed
qed

text \<open>
  Claim C1. On a non-empty pool, allocation for a note-on follows a fixed priority order
  and takes the first class that has a member: (1) a voice that holds the note while
  active or releasing (the first in pool order) is hard-stopped and returned; (2)
  otherwise a voice that is neither active nor releasing is returned, the state untouched;
  (3) otherwise the oldest voice that is releasing and not active is hard-stopped and
  returned; (4) otherwise the oldest voice that is active and not releasing; (5) otherwise
  the oldest of the voices that are not free.
\<close>

theorem findVoiceForNoteOn_priority:
  assumes "voices s \<noteq> []"
  shows
    "if \<exists>v \<in> set (voices s). holdsNote n v then
       \<exists>i. firstWhere (holdsNote n) (voices s) i
            \<and> findVoiceForNoteOn s n = (stopVoice s i True, Some i)
     else if \<exists>v \<in> set (voices s). isFree v then
       \<exists>i. firstWhere isFree (voices s) i \<and> findVoiceForNoteOn s n = (s, Some i)
     else if \<exists>v \<in> set (voices s). onlyReleasing v then
       \<exists>i. oldestAmong onlyReleasing (voices s) i
            \<and> findVoiceForNoteOn s n = (stopVoice s i True, Some i)
     else if \<exists>v \<in> set (voices s). onlyActive v then
       \<exists>i. oldestAmong onlyActive (voices s) i
            \<and> findVoiceForNoteOn s n = (stopVoice s i True, Some i)
     else
       \<exists>i. oldestAmong nonFree (voices s) i
            \<and> findVoiceForNoteOn s n = (stopVoice s i True, Some i)"
  using assms by (rule findVoiceForNoteOn_cases)

theorem findVoiceForNoteOn_priority_witness:
  "voices oneNote \<noteq> []
   \<and> findVoiceForNoteOn oneNote 60 = (stopVoice oneNote 0 True, Some 0)"
proof -
  from oneNote_voices have ne: "voices oneNote \<noteq> []" by auto
  from oneNote_voices have "map (\<lambda>v. (voice_note v, isActive v, isReleasing v, startTime v))
      (voices oneNote) ! 0 = (Some 60, True, False, 0)" by simp
  with ne have h0: "holdsNote 60 (voices oneNote ! 0)" by (simp add: holdsNote_def)
  with ne have "\<exists>v \<in> set (voices oneNote). holdsNote 60 v"
    by (metis length_greater_0_conv nth_mem)
  with findVoiceForNoteOn_priority [OF ne, of 60] obtain i
    where i: "firstWhere (holdsNote 60) (voices oneNote) i"
      and r: "findVoiceForNoteOn oneNote 60 = (stopVoice oneNote i True, Some i)"
    by auto
  from i h0 have "i = 0" by (cases i) (auto simp: firstWhere_def)
  with r ne show ?thesis by simp
qed

subsection \<open>Events that find nothing to do\<close>

lemma findVoiceForNoteOn_empty: "voices s = [] \<Longrightarrow> findVoiceForNoteOn s n = (s, None)"
  by (simp add: findVoiceForNoteOn_def)

text \<open>
  Claim C8. If the voice pool is empty, allocation returns none and \<^const>\<open>noteOn\<close>
  returns the engine as it was, but for the request to resume a suspended audio context:
  no voice, timer, parameter or node is touched, and no call of the model can fail.
\<close>

theorem noteOn_empty_pool:
  assumes "voices s = []"
  shows "findVoiceForNoteOn (resumeIfSuspended s) n = (resumeIfSuspended s, None)
       \<and> noteOn s n vel = resumeIfSuspended s
       \<and> noteOn s n vel =
           s\<lparr>audioContext := (audioContext s)\<lparr>resumeCalls :=
               (if ctx_state (audioContext s) = Suspended then Suc (resumeCalls (audioContext s))
                else resumeCalls (audioContext s))\<rparr>\<rparr>"
proof -
  from assms have v: "voices (resumeIfSuspended s) = []"
    by (simp add: resumeIfSuspended_def)
  have 1: "findVoiceForNoteOn (resumeIfSuspended s) n = (resumeIfSuspended s, None)"
    by (rule findVoiceForNoteOn_empty [OF v])
  then have 2: "noteOn s n vel = resumeIfSuspended s"
    by (simp add: noteOn_def)
  have "resumeIfSuspended s =
           s\<lparr>audioContext := (audioContext s)\<lparr>resumeCalls :=
               (if ctx_state (audioContext s) = Suspended then Suc (resumeCalls (audioContext s))
                else resumeCalls (audioContext s))\<rparr>\<rparr>"
    by (simp add: resumeIfSuspended_def resume_def)
  with 1 2 show ?thesis by simp
qed

lemma voices_emptyPool: "voices emptyPool = []"
  by (simp add: emptyPool_def voices_newEngine)

theorem noteOn_empty_pool_witness:
  "voices emptyPool = []
   \<and> noteOn emptyPool 60 100 = emptyPool\<lparr>audioContext := (audioContext emptyPool)\<lparr>resumeCalls := 1\<rparr>\<rparr>
   \<and> noteOn (newEngine 0 exampleContext INITIAL_SYNTH_PARAMS) 60 100
       = newEngine 0 exampleContext INITIAL_SYNTH_PARAMS"
proof -
  have c: "ctx_state (audioContext emptyPool) = Suspended"
          "resumeCalls (audioContext emptyPool) = 0"
    by (simp_all add: emptyPool_def newEngine_def applyParamsToEngineGlobally_def
        INITIAL_SYNTH_PARAMS_def exampleContext_def Let_def)
  have d: "voices (newEngine 0 exampleContext INITIAL_SYNTH_PARAMS) = []"
          "ctx_state (audioContext (newEngine 0 exampleContext INITIAL_SYNTH_PARAMS)) = Running"
    by (simp_all add: newEngine_def applyParamsToEngineGlobally_def
        INITIAL_SYNTH_PARAMS_def exampleContext_def Let_def)
  from noteOn_empty_pool [OF voices_emptyPool, of 60 100]
  have "noteOn emptyPool 60 100 =
          emptyPool\<lparr>audioContext := (audioContext emptyPool)\<lparr>resumeCalls :=
             (if ctx_state (audioContext emptyPool) = Suspended
              then Suc (resumeCalls (audioContext emptyPool))
              else resumeCalls (audioContext emptyPool))\<rparr>\<rparr>"
    by blast
  with c have 1: "noteOn emptyPool 60 100
      = emptyPool\<lparr>audioContext := (audioContext emptyPool)\<lparr>resumeCalls := 1\<rparr>\<rparr>"
    by simp
  from noteOn_empty_pool [OF d(1), of 60 100]
  have "noteOn (newEngine 0 exampleContext INITIAL_SYNTH_PARAMS) 60 100
      = resumeIfSuspended (newEngine 0 exampleContext INITIAL_SYNTH_PARAMS)"
    by blast
  with d(2) have 2: "noteOn (newEngine 0 exampleContext INITIAL_SYNTH_PARAMS) 60 100
      = newEngine 0 exampleContext INITIAL_SYNTH_PARAMS"
    by (simp add: resumeIfSuspended_def)
  from 1 2 voices_emptyPool show ?thesis by blast
qed

lemma voicesWhere_empty: "voicesWhere C vs = [] \<longleftrightarrow> (\<forall>v \<in> set vs. \<not> C v)"
  using voicesWhere_nonempty [of C vs] by blast

text \<open>
  Claim C9. If no voice holds the note while active or releasing, \<^const>\<open>noteOff\<close>
  returns the engine unchanged: no field of any voice changes, and no automation, stop or
  cleanup timer is scheduled.
\<close>

theorem noteOff_not_sounding:
  assumes "\<forall>v \<in> set (voices s). \<not> holdsNote n v"
  shows "noteOff s n = s"
proof -
  have "(\<lambda>v. voice_note v = Some n \<and> (isActive v \<or> isReleasing v)) = holdsNote n"
    by (simp add: holdsNote_def fun_eq_iff)
  moreover from assms have "voicesWhere (holdsNote n) (voices s) = []"
    by (simp add: voicesWhere_empty)
  ultimately show ?thesis by (simp add: noteOff_def)
qed

theorem noteOff_not_sounding_witness:
  "list_all (\<lambda>v. \<not> holdsNote 61 v) (voices oneNote) \<and> noteOff oneNote 61 = oneNote"
proof -
  have "map (\<lambda>v. holdsNote 61 v) (voices oneNote) = replicate 8 False"
  proof -
    have "map (\<lambda>v. holdsNote 61 v) (voices oneNote)
        = map (\<lambda>(a, b, c, d). a = Some 61 \<and> (b \<or> c))
            (map (\<lambda>v. (voice_note v, isActive v, isReleasing v, startTime v)) (voices oneNote))"
      by (simp add: holdsNote_def)
    also have "\<dots> = replicate 8 False"
      by (simp only: oneNote_voices) (simp add: numeral_eq_Suc)
    finally show ?thesis .
  qed
  then have "\<forall>v \<in> set (voices oneNote). \<not> holdsNote 61 v"
    by (metis (no_types, lifting) in_set_replicate image_eqI list.set_map)
  with noteOff_not_sounding [of oneNote 61] show ?thesis by (simp add: list_all_iff)
qed

subsection \<open>Operations that leave the core of every voice alone\<close>

lemma voiceCore_eqD:
  assumes "voiceCore v' = voiceCore v"
  shows "voice_note v' = voice_note v" "isActive v' = isActive v" "isReleasing v' = isReleasing v"
    "cleanNodes v' = cleanNodes v" "scheduledStopTimeouts v' = scheduledStopTimeouts v"
  using assms by (simp_all add: voiceCore_def)

lemma voiceCore_connect: "voiceCore (connectLFOToVoice s v) = voiceCore v"
  by (simp add: voiceCore_def cleanNodes_def connectLFOToVoice_def Let_def)

lemma voiceCore_disconnect: "voiceCore (disconnectLFOFromVoice s v) = voiceCore v"
  by (simp add: voiceCore_def cleanNodes_def disconnectLFOFromVoice_def Let_def)

lemma map_voiceCore_cong:
  "(\<And>v. voiceCore (f v) = voiceCore v) \<Longrightarrow> map voiceCore (map f vs) = map voiceCore vs"
  by (induction vs) auto

lemma cores_teardownLFO:
  "map voiceCore (voices (teardownLFO s)) = map voiceCore (voices s)"
  "timers (teardownLFO s) = timers s"
  by (simp_all add: teardownLFO_def map_voiceCore_cong voiceCore_disconnect del: map_map)

lemma cores_setupLFO:
  "map voiceCore (voices (setupLFO s l)) = map voiceCore (voices s)"
  "timers (setupLFO s l) = timers s"
  by (simp_all add: setupLFO_def Let_def cores_teardownLFO map_voiceCore_cong voiceCore_connect
      del: map_map)

lemma cores_applyParams:
  "map voiceCore (voices (applyParamsToEngineGlobally s p)) = map voiceCore (voices s)"
  "timers (applyParamsToEngineGlobally s p) = timers s"
  by (simp_all add: applyParamsToEngineGlobally_def Let_def cores_teardownLFO cores_setupLFO)

lemma voiceCore_filterNode_update: "voiceCore (v\<lparr>filterNode := x\<rparr>) = voiceCore v"
  by (simp add: voiceCore_def cleanNodes_def)

lemma cores_updateParams:
  "map voiceCore (voices (updateParams s p)) = map voiceCore (voices s)"
  "timers (updateParams s p) = timers s"
  unfolding updateParams_def Let_def
  by (simp_all add: map_voiceCore_cong voiceCore_connect voiceCore_disconnect
      voiceCore_filterNode_update cores_applyParams cores_setupLFO cores_teardownLFO
      del: map_map)

lemma cores_setPitchBend:
  "map voiceCore (voices (setPitchBend s b)) = map voiceCore (voices s)"
  "timers (setPitchBend s b) = timers s"
  by (simp_all add: setPitchBend_def Let_def map_voiceCore_cong voiceCore_def cleanNodes_def
      del: map_map)

lemma cores_backendValue:
  "map voiceCore (voices (backendValue s r x)) = map voiceCore (voices s)"
  "timers (backendValue s r x) = timers s"
  by (simp_all add: backendValue_def voiceCore_def cleanNodes_def map_update list_update_same_conv
      split: ParamRef.splits)

subsection \<open>Preservation of the invariants\<close>

lemma holdsNote_core: "voiceCore v' = voiceCore v \<Longrightarrow> holdsNote n v' = holdsNote n v"
  by (simp add: voiceCore_def holdsNote_def)

lemma isFree_core: "voiceCore v' = voiceCore v \<Longrightarrow> isFree v' = isFree v"
  by (simp add: voiceCore_def isFree_def)

lemma cores_nth:
  assumes "map voiceCore vs' = map voiceCore vs" "i < length vs"
  shows "voiceCore (vs' ! i) = voiceCore (vs ! i)"
proof -
  from assms(1) have len: "length vs' = length vs" by (rule map_eq_imp_length_eq)
  from assms(1) have "map voiceCore vs' ! i = map voiceCore vs ! i" by simp
  with len assms(2) show ?thesis by simp
qed

lemma goodState_frame:
  assumes c: "map voiceCore (voices s') = map voiceCore (voices s)"
    and t: "timers s' = timers s"
    and g: "goodState s"
  shows "goodState s'"
proof -
  from c have len: "length (voices s') = length (voices s)" by (rule map_eq_imp_length_eq)
  have core: "voiceCore (voices s' ! i) = voiceCore (voices s ! i)" if "i < length (voices s)" for i
    using cores_nth [OF c that] .
  have u: "uniqueNotes s'"
    using g unfolding goodState_def uniqueNotes_def len
    by (metis core holdsNote_core)
  have f: "freeClean s'"
    using g unfolding goodState_def freeClean_def len
    by (metis core isFree_core voiceCore_eqD(4,5))
  have o: "timersOwned s'"
    using g unfolding goodState_def timersOwned_def len t
    by (metis core voiceCore_eqD(5))
  from u f o show ?thesis by (simp add: goodState_def)
qed

lemma stopVoice_voice_fields:
  "voice_note (stopVoice_voice s v h) = (if h then voice_note v else None)"
  "velocity (stopVoice_voice s v h) = (if h \<and> voice_note v \<noteq> None then velocity v else 0)"
  "startTime (stopVoice_voice s v h) = (if h \<and> voice_note v \<noteq> None then startTime v else 0)"
  "isActive (stopVoice_voice s v h) = False"
  "isReleasing (stopVoice_voice s v h) = False"
  "oscillators (stopVoice_voice s v h) = []"
  "noiseNode (stopVoice_voice s v h) = None"
  "noiseGainNode (stopVoice_voice s v h) = None"
  "scheduledStopTimeouts (stopVoice_voice s v h) = []"
  by (auto simp add: stopVoice_voice_def disconnectLFOFromVoice_def Let_def)

lemma stopVoice_frame:
  "audioContext (stopVoice s i h) = audioContext s"
  "currentParams (stopVoice s i h) = currentParams s"
  "pitchBendMultiplier (stopVoice s i h) = pitchBendMultiplier s"
  "lfoGainPitchNode (stopVoice s i h) = lfoGainPitchNode s"
  "lfoGainFilterNode (stopVoice s i h) = lfoGainFilterNode s"
  "lfoOscNode (stopVoice s i h) = lfoOscNode s"
  "nextTimerId (stopVoice s i h) = nextTimerId s"
  "length (voices (stopVoice s i h)) = length (voices s)"
  "now (stopVoice s i h) = now s"
  "nyquist (stopVoice s i h) = nyquist s"
  by (simp_all add: stopVoice_def now_def nyquist_def)

lemma stopVoice_nth:
  "i < length (voices s) \<Longrightarrow> voices (stopVoice s i h) ! i = stopVoice_voice s (voices s ! i) h"
  "k \<noteq> i \<Longrightarrow> voices (stopVoice s i h) ! k = voices s ! k"
  by (simp_all add: stopVoice_def)

lemma stopVoice_timers:
  "timers (stopVoice s i h) = clearTimeouts (scheduledStopTimeouts (voices s ! i)) (timers s)"
  by (simp add: stopVoice_def)

lemma uniqueNotes_shrink:
  assumes "uniqueNotes s" "length (voices s') = length (voices s)"
    and "\<And>k m. k < length (voices s) \<Longrightarrow> holdsNote m (voices s' ! k) \<Longrightarrow> holdsNote m (voices s ! k)"
  shows "uniqueNotes s'"
  using assms unfolding uniqueNotes_def by metis

lemma stopVoice_good:
  assumes g: "goodState s" and i: "i < length (voices s)"
  shows "goodState (stopVoice s i h)"
proof -
  let ?s' = "stopVoice s i h"
  have nh: "\<not> holdsNote m (voices ?s' ! i)" for m
    using i by (simp add: stopVoice_nth holdsNote_def stopVoice_voice_fields)
  have u: "uniqueNotes ?s'"
  proof (rule uniqueNotes_shrink)
    show "uniqueNotes s" using g by (simp add: goodState_def)
    show "length (voices ?s') = length (voices s)" by (simp add: stopVoice_frame)
    fix k m assume "k < length (voices s)" "holdsNote m (voices ?s' ! k)"
    then show "holdsNote m (voices s ! k)"
      using nh by (cases "k = i") (simp_all add: stopVoice_nth)
  qed
  have f: "freeClean ?s'"
    unfolding freeClean_def
  proof (intro allI impI)
    fix k assume k: "k < length (voices ?s')" and fr: "isFree (voices ?s' ! k)"
    show "cleanNodes (voices ?s' ! k) \<and> scheduledStopTimeouts (voices ?s' ! k) = []"
    proof (cases "k = i")
      case True
      with i show ?thesis by (simp add: stopVoice_nth cleanNodes_def stopVoice_voice_fields)
    next
      case False
      with k fr g show ?thesis
        by (simp add: stopVoice_nth stopVoice_frame goodState_def freeClean_def)
    qed
  qed
  have o: "timersOwned ?s'"
    unfolding timersOwned_def
  proof
    fix t assume t: "t \<in> set (timers ?s')"
    then have t0: "t \<in> set (timers s)"
      and nid: "timer_id t \<notin> set (scheduledStopTimeouts (voices s ! i))"
      by (simp_all add: stopVoice_timers clearTimeouts_def)
    from g t0 have own: "timer_voice t < length (voices s)"
      "timer_id t \<in> set (scheduledStopTimeouts (voices s ! timer_voice t))"
      by (simp_all add: goodState_def timersOwned_def)
    with nid have "timer_voice t \<noteq> i" by auto
    with own show "timer_voice t < length (voices ?s')
        \<and> timer_id t \<in> set (scheduledStopTimeouts (voices ?s' ! timer_voice t))"
      by (simp add: stopVoice_nth stopVoice_frame)
  qed
  from u f o show ?thesis by (simp add: goodState_def)
qed

lemma findVoiceForNoteOn_None:
  assumes "findVoiceForNoteOn s n = (s1, None)"
  shows "s1 = s \<and> voices s = []"
proof (cases "voices s = []")
  case True
  with assms show ?thesis by (simp add: findVoiceForNoteOn_def)
next
  case False
  from findVoiceForNoteOn_cases [OF False, of n] assms show ?thesis
    by (auto split: if_splits)
qed

lemma findVoiceForNoteOn_Some:
  assumes "findVoiceForNoteOn s n = (s1, Some i)"
  shows "i < length (voices s)"
    and "(s1 = s \<and> isFree (voices s ! i)) \<or> s1 = stopVoice s i True"
    and "(\<exists>v \<in> set (voices s). holdsNote n v) \<Longrightarrow> holdsNote n (voices s ! i)"
proof -
  have ne: "voices s \<noteq> []" using assms by (auto simp: findVoiceForNoteOn_def)
  note c = findVoiceForNoteOn_cases [OF ne, of n]
  from c assms show "i < length (voices s)"
    by (auto simp: firstWhere_def oldestAmong_def split: if_splits)
  from c assms show "(s1 = s \<and> isFree (voices s ! i)) \<or> s1 = stopVoice s i True"
    by (auto simp: firstWhere_def oldestAmong_def split: if_splits)
  assume "\<exists>v \<in> set (voices s). holdsNote n v"
  with c assms show "holdsNote n (voices s ! i)"
    by (auto simp: firstWhere_def)
qed

lemma noteOn_voice_fields:
  "voice_note (noteOn_voice s v n vel) = Some n"
  "velocity (noteOn_voice s v n vel) = vel"
  "isActive (noteOn_voice s v n vel) = True"
  "isReleasing (noteOn_voice s v n vel) = False"
  "startTime (noteOn_voice s v n vel) = now s"
  "scheduledStopTimeouts (noteOn_voice s v n vel) = []"
  by (simp_all add: noteOn_voice_def connectLFOToVoice_def Let_def)

lemma resumeIfSuspended_frame:
  "voices (resumeIfSuspended s) = voices s"
  "timers (resumeIfSuspended s) = timers s"
  "currentParams (resumeIfSuspended s) = currentParams s"
  "now (resumeIfSuspended s) = now s"
  "nyquist (resumeIfSuspended s) = nyquist s"
  "pitchBendMultiplier (resumeIfSuspended s) = pitchBendMultiplier s"
  by (simp_all add: resumeIfSuspended_def resume_def now_def nyquist_def)

lemma goodState_resume: "goodState s \<Longrightarrow> goodState (resumeIfSuspended s)"
  by (rule goodState_frame [of _ s]) (simp_all add: resumeIfSuspended_frame)

text \<open>The voice that allocation returns is free, and nothing is pending for it.\<close>

lemma allocated_voice_reset:
  assumes g: "goodState s" and a: "findVoiceForNoteOn s n = (s1, Some i)"
  shows "goodState s1" "i < length (voices s1)" "isFree (voices s1 ! i)"
    "cleanNodes (voices s1 ! i)" "scheduledStopTimeouts (voices s1 ! i) = []"
    "\<forall>t \<in> set (timers s1). timer_voice t \<noteq> i"
proof -
  note sh = findVoiceForNoteOn_Some [OF a]
  from sh(2) g sh(1) show g1: "goodState s1" by (auto intro: stopVoice_good)
  from sh(1,2) show i1: "i < length (voices s1)" by (auto simp: stopVoice_frame)
  from sh(1,2) show fr: "isFree (voices s1 ! i)"
    by (auto simp: stopVoice_nth isFree_def stopVoice_voice_fields)
  from g1 i1 fr show cl: "cleanNodes (voices s1 ! i)"
    and em: "scheduledStopTimeouts (voices s1 ! i) = []"
    by (simp_all add: goodState_def freeClean_def)
  from g1 em show "\<forall>t \<in> set (timers s1). timer_voice t \<noteq> i"
    by (auto simp: goodState_def timersOwned_def)
qed

lemma noteOn_Some:
  assumes "findVoiceForNoteOn (resumeIfSuspended s) n = (s1, Some i)"
  shows "noteOn s n vel =
     s1\<lparr>timers := clearTimeouts (scheduledStopTimeouts (voices s1 ! i)) (timers s1),
        voices := (voices s1)[i := noteOn_voice s1 (voices s1 ! i) n vel]\<rparr>"
  using assms by (simp add: noteOn_def)

lemma noteOn_good:
  assumes g: "goodState s"
  shows "goodState (noteOn s n vel)"
proof -
  let ?s0 = "resumeIfSuspended s"
  have g0: "goodState ?s0" using g by (rule goodState_resume)
  obtain s1 r where a: "findVoiceForNoteOn ?s0 n = (s1, r)" by (cases "findVoiceForNoteOn ?s0 n")
  show ?thesis
  proof (cases r)
    case None
    with a findVoiceForNoteOn_None [of ?s0 n s1] have "noteOn s n vel = ?s0"
      by (simp add: noteOn_def)
    with g0 show ?thesis by simp
  next
    case (Some i)
    with a have a': "findVoiceForNoteOn ?s0 n = (s1, Some i)" by simp
    note sh = findVoiceForNoteOn_Some [OF a']
    note al = allocated_voice_reset [OF g0 a']
    let ?V = "noteOn_voice s1 (voices s1 ! i) n vel"
    let ?s2 = "noteOn s n vel"
    have s2: "?s2 = s1\<lparr>timers := timers s1, voices := (voices s1)[i := ?V]\<rparr>"
      using noteOn_Some [OF a', of vel] al(5) by (simp add: clearTimeouts_def)
    have len: "length (voices ?s2) = length (voices s1)" by (simp add: s2)
    have nthi: "voices ?s2 ! i = ?V" using al(2) by (simp add: s2)
    have nthk: "voices ?s2 ! k = voices s1 ! k" if "k \<noteq> i" for k using that by (simp add: s2)
    have tm: "timers ?s2 = timers s1" by (simp add: s2)
    have hi: "holdsNote m (voices ?s2 ! i) \<longleftrightarrow> m = n" for m
      by (auto simp: nthi holdsNote_def noteOn_voice_fields)
    have old: "holdsNote m (voices ?s0 ! k)" if "k \<noteq> i" "holdsNote m (voices s1 ! k)" for k m
      using that sh(2) by (auto simp: stopVoice_nth)
    have len0: "length (voices s1) = length (voices ?s0)"
      using sh(2) by (auto simp: stopVoice_frame)
    have u: "uniqueNotes ?s2"
      unfolding uniqueNotes_def
    proof (intro allI impI)
      fix k l m
      assume k: "k < length (voices ?s2)" and l: "l < length (voices ?s2)"
        and h: "holdsNote m (voices ?s2 ! k) \<and> holdsNote m (voices ?s2 ! l)"
      have other: False if "x \<noteq> i" "x < length (voices ?s2)" "holdsNote m (voices ?s2 ! x)"
        "holdsNote m (voices ?s2 ! i)" for x
      proof -
        from that(4) have mn: "m = n" by (simp add: hi)
        from that(1,3) have "holdsNote m (voices s1 ! x)" by (simp add: nthk)
        with that(1) have hx: "holdsNote n (voices ?s0 ! x)" using old mn by simp
        from that(2) have x0: "x < length (voices ?s0)" by (simp add: len len0)
        with hx have "\<exists>v \<in> set (voices ?s0). holdsNote n v" by (metis nth_mem)
        then have "holdsNote n (voices ?s0 ! i)" by (rule sh(3))
        with hx x0 sh(1) g0 have "x = i" unfolding goodState_def uniqueNotes_def by blast
        with that(1) show False by simp
      qed
      show "k = l"
      proof (cases "k = i")
        case True
        show ?thesis
        proof (cases "l = i")
          case True
          with \<open>k = i\<close> show ?thesis by simp
        next
          case False
          with other [of l] l h \<open>k = i\<close> show ?thesis by auto
        qed
      next
        case False
        show ?thesis
        proof (cases "l = i")
          case True
          with other [of k] k h False show ?thesis by auto
        next
          case lf: False
          from h False lf have "holdsNote m (voices s1 ! k)" "holdsNote m (voices s1 ! l)"
            by (simp_all add: nthk)
          with al(1) k l len show ?thesis unfolding goodState_def uniqueNotes_def by metis
        qed
      qed
    qed
    have f: "freeClean ?s2"
      unfolding freeClean_def
    proof (intro allI impI)
      fix k assume k: "k < length (voices ?s2)" and fr: "isFree (voices ?s2 ! k)"
      have "k \<noteq> i" using fr by (auto simp: nthi isFree_def noteOn_voice_fields)
      with k fr al(1) len show "cleanNodes (voices ?s2 ! k) \<and> scheduledStopTimeouts (voices ?s2 ! k) = []"
        by (simp add: nthk goodState_def freeClean_def)
    qed
    have o: "timersOwned ?s2"
      unfolding timersOwned_def
    proof
      fix t assume "t \<in> set (timers ?s2)"
      then have t: "t \<in> set (timers s1)" by (simp add: tm)
      with al(6) have ni: "timer_voice t \<noteq> i" by blast
      from t al(1) have "timer_voice t < length (voices s1)"
        "timer_id t \<in> set (scheduledStopTimeouts (voices s1 ! timer_voice t))"
        by (simp_all add: goodState_def timersOwned_def)
      with ni show "timer_voice t < length (voices ?s2)
          \<and> timer_id t \<in> set (scheduledStopTimeouts (voices ?s2 ! timer_voice t))"
        by (simp add: len nthk)
    qed
    from u f o show ?thesis by (simp add: goodState_def)
  qed
qed

text \<open>The voice that \<^const>\<open>noteOff_voice\<close> leaves at position \<open>j\<close> when its guard lets it run.\<close>

lemma noteOff_voice_skip:
  "\<not> isActive (voices s ! j) \<and> isReleasing (voices s ! j) \<and> voice_note (voices s ! j) \<noteq> Some n
   \<Longrightarrow> noteOff_voice n j s = s"
  by (simp add: noteOff_voice_def Let_def)

lemma noteOff_voice_run:
  assumes "\<not> (\<not> isActive (voices s ! j) \<and> isReleasing (voices s ! j) \<and> voice_note (voices s ! j) \<noteq> Some n)"
    and "j < length (voices s)"
  shows "length (voices (noteOff_voice n j s)) = length (voices s)"
    and "\<And>k. k \<noteq> j \<Longrightarrow> voices (noteOff_voice n j s) ! k = voices s ! k"
    and "voice_note (voices (noteOff_voice n j s) ! j) = voice_note (voices s ! j)"
    and "isActive (voices (noteOff_voice n j s) ! j) = False"
    and "isReleasing (voices (noteOff_voice n j s) ! j) = True"
    and "scheduledStopTimeouts (voices (noteOff_voice n j s) ! j)
          = scheduledStopTimeouts (voices s ! j) @ [nextTimerId s]"
    and "timers (noteOff_voice n j s) = timers s @
          [\<lparr>timer_id = nextTimerId s,
            timer_delay = (max (release (ampEnvelope (currentParams s)))
                               (release (filterEnvelope (currentParams s))) + 0.1) * 1000,
            timer_voice = j, timer_note = n\<rparr>]"
  using assms by (simp_all add: noteOff_voice_def Let_def)

lemma noteOff_voice_frame:
  "audioContext (noteOff_voice n j s) = audioContext s"
  "currentParams (noteOff_voice n j s) = currentParams s"
  "length (voices (noteOff_voice n j s)) = length (voices s)"
  "now (noteOff_voice n j s) = now s"
  by (simp_all add: noteOff_voice_def Let_def now_def)

lemma noteOff_voice_good:
  assumes g: "goodState s" and j: "j < length (voices s)" and nf: "nonFree (voices s ! j)"
  shows "goodState (noteOff_voice n j s)"
    and "\<And>k. k < length (voices s) \<Longrightarrow> nonFree (voices s ! k) \<Longrightarrow> nonFree (voices (noteOff_voice n j s) ! k)"
proof -
  let ?s' = "noteOff_voice n j s"
  let ?skip = "\<not> isActive (voices s ! j) \<and> isReleasing (voices s ! j) \<and> voice_note (voices s ! j) \<noteq> Some n"
  have "goodState ?s' \<and> (\<forall>k<length (voices s). nonFree (voices s ! k) \<longrightarrow> nonFree (voices ?s' ! k))"
  proof (cases ?skip)
    case True
    then have "?s' = s" by (rule noteOff_voice_skip)
    with g show ?thesis by simp
  next
    case False
    note r = noteOff_voice_run [OF False j]
    have u: "uniqueNotes ?s'"
    proof (rule uniqueNotes_shrink)
      show "uniqueNotes s" using g by (simp add: goodState_def)
      show "length (voices ?s') = length (voices s)" by (rule r(1))
      fix k m assume "k < length (voices s)" and h: "holdsNote m (voices ?s' ! k)"
      show "holdsNote m (voices s ! k)"
      proof (cases "k = j")
        case True
        with h nf show ?thesis by (simp add: holdsNote_def nonFree_def r(3))
      next
        case False
        with h show ?thesis by (simp add: r(2))
      qed
    qed
    have f: "freeClean ?s'"
      unfolding freeClean_def
    proof (intro allI impI)
      fix k assume k: "k < length (voices ?s')" and fr: "isFree (voices ?s' ! k)"
      from fr have "k \<noteq> j" by (auto simp: isFree_def r(5))
      with k fr g show "cleanNodes (voices ?s' ! k) \<and> scheduledStopTimeouts (voices ?s' ! k) = []"
        by (simp add: r(1,2) goodState_def freeClean_def)
    qed
    have o: "timersOwned ?s'"
      unfolding timersOwned_def
    proof
      fix t assume t: "t \<in> set (timers ?s')"
      show "timer_voice t < length (voices ?s')
          \<and> timer_id t \<in> set (scheduledStopTimeouts (voices ?s' ! timer_voice t))"
      proof (cases "t \<in> set (timers s)")
        case True
        with g have own: "timer_voice t < length (voices s)"
          "timer_id t \<in> set (scheduledStopTimeouts (voices s ! timer_voice t))"
          by (simp_all add: goodState_def timersOwned_def)
        then show ?thesis
          by (cases "timer_voice t = j") (simp_all add: r(1,2,6))
      next
        case False
        with t have "timer_voice t = j" "timer_id t = nextTimerId s" by (auto simp: r(7))
        with j show ?thesis by (simp add: r(1,6))
      qed
    qed
    have "nonFree (voices ?s' ! k)" if "nonFree (voices s ! k)" for k
      using that by (cases "k = j") (simp_all add: r(2) nonFree_def r(5))
    with u f o show ?thesis by (simp add: goodState_def)
  qed
  then show "goodState ?s'"
    and "\<And>k. k < length (voices s) \<Longrightarrow> nonFree (voices s ! k) \<Longrightarrow> nonFree (voices ?s' ! k)"
    by blast+
qed

lemma fold_noteOff_voice_good:
  "goodState s \<Longrightarrow> \<forall>j \<in> set xs. j < length (voices s) \<and> nonFree (voices s ! j)
   \<Longrightarrow> goodState (fold (noteOff_voice n) xs s)"
proof (induction xs arbitrary: s)
  case Nil
  then show ?case by simp
next
  case (Cons j xs)
  from Cons.prems have j: "j < length (voices s)" "nonFree (voices s ! j)" by simp_all
  note st = noteOff_voice_good [OF Cons.prems(1) j]
  have "\<forall>k \<in> set xs. k < length (voices (noteOff_voice n j s))
          \<and> nonFree (voices (noteOff_voice n j s) ! k)"
    using Cons.prems(2) st(2) by (simp add: noteOff_voice_frame)
  from Cons.IH [OF st(1) this] show ?case by simp
qed

lemma noteOff_good:
  assumes "goodState s"
  shows "goodState (noteOff s n)"
proof -
  have "\<forall>j \<in> set (voicesWhere (\<lambda>v. voice_note v = Some n \<and> (isActive v \<or> isReleasing v)) (voices s)).
          j < length (voices s) \<and> nonFree (voices s ! j)"
    by (simp add: set_voicesWhere nonFree_def)
  with assms show ?thesis unfolding noteOff_def by (rule fold_noteOff_voice_good)
qed

lemma fold_stopVoice_good:
  "goodState s \<Longrightarrow> \<forall>i \<in> set xs. i < length (voices s)
   \<Longrightarrow> goodState (fold (\<lambda>i s'. stopVoice s' i h) xs s)"
proof (induction xs arbitrary: s)
  case Nil
  then show ?case by simp
next
  case (Cons i xs)
  from Cons.prems have "goodState (stopVoice s i h)" by (simp add: stopVoice_good)
  moreover from Cons.prems have "\<forall>k \<in> set xs. k < length (voices (stopVoice s i h))"
    by (simp add: stopVoice_frame)
  ultimately show ?case using Cons.IH by simp
qed

lemma dispose_good:
  assumes "goodState s"
  shows "goodState (dispose s)"
proof -
  let ?s1 = "fold (\<lambda>i s'. stopVoice s' i True) [0..<length (voices s)] s"
  have g1: "goodState ?s1" using assms by (rule fold_stopVoice_good) simp
  have "goodState (teardownLFO ?s1)"
    by (rule goodState_frame [OF cores_teardownLFO g1])
  then show ?thesis
    unfolding dispose_def Let_def
    by (auto intro: goodState_frame [of _ "teardownLFO ?s1"])
qed

lemma cleanupTimerFires_good:
  assumes g: "goodState s"
  shows "goodState (cleanupTimerFires s tid)"
proof (cases "find (\<lambda>t. timer_id t = tid) (timers s)")
  case None
  with g show ?thesis by (simp add: cleanupTimerFires_def)
next
  case (Some t)
  let ?s1 = "s\<lparr>timers := filter (\<lambda>u. timer_id u \<noteq> tid) (timers s)\<rparr>"
  from Some have "t \<in> set (timers s)" by (auto simp: find_Some_iff)
  with g have tv: "timer_voice t < length (voices ?s1)"
    by (simp add: goodState_def timersOwned_def)
  from g have g1: "goodState ?s1"
    by (simp add: goodState_def uniqueNotes_def freeClean_def timersOwned_def)
  from g1 tv have "goodState (stopVoice ?s1 (timer_voice t) False)" by (rule stopVoice_good)
  with g1 Some show ?thesis by (simp add: cleanupTimerFires_def Let_def)
qed

lemma step_good: "goodState s \<Longrightarrow> goodState (step s e)"
proof (cases e)
  case (NoteOn n vel)
  assume "goodState s" with NoteOn show ?thesis by (simp add: noteOn_good)
next
  case (NoteOff n)
  assume "goodState s" with NoteOff show ?thesis by (simp add: noteOff_good)
next
  case (PitchBend b)
  assume "goodState s" with PitchBend show ?thesis
    by (simp add: goodState_frame [OF cores_setPitchBend])
next
  case (UpdateParams p)
  assume "goodState s" with UpdateParams show ?thesis
    by (simp add: goodState_frame [OF cores_updateParams])
next
  case Dispose
  assume "goodState s" with Dispose show ?thesis by (simp add: dispose_good)
next
  case (TimerFires tid)
  assume "goodState s" with TimerFires show ?thesis by (simp add: cleanupTimerFires_good)
next
  case (ClockAdvances d)
  assume "goodState s" with ClockAdvances show ?thesis
    by (auto intro: goodState_frame [of _ s])
next
  case (ContextBecomes st)
  assume "goodState s" with ContextBecomes show ?thesis
    by (auto intro: goodState_frame [of _ s])
next
  case (BackendValue r x)
  assume "goodState s" with BackendValue show ?thesis
    by (simp add: goodState_frame [OF cores_backendValue])
qed

lemma run_good: "goodState s \<Longrightarrow> goodState (run s evs)"
  unfolding run_def by (induction evs arbitrary: s) (simp_all add: step_good)

lemma newEngine_good: "goodState (newEngine k ctx p)"
proof -
  have t: "timers (newEngine k ctx p) = []"
    by (simp add: newEngine_def Let_def cores_applyParams)
  have v: "voices (newEngine k ctx p) = map newVoice [0..<k]" by (rule voices_newEngine)
  show ?thesis
    by (simp add: goodState_def uniqueNotes_def freeClean_def timersOwned_def t v
        holdsNote_def newVoice_def cleanNodes_def)
qed

lemma reachable_good: "goodState (run (constructor ctx p) evs)"
  by (simp add: constructor_def run_good newEngine_good)

subsection \<open>One voice per note, and the state of an allocated voice\<close>

lemma voicesWhere_distinct: "distinct (voicesWhere C vs)"
  by (simp add: voicesWhere_def)

lemma uniqueNotes_count:
  assumes "uniqueNotes s"
  shows "length (voicesWhere (holdsNote n) (voices s)) \<le> 1"
proof -
  let ?xs = "voicesWhere (holdsNote n) (voices s)"
  have "\<forall>a \<in> set ?xs. \<forall>b \<in> set ?xs. a = b"
    using assms unfolding uniqueNotes_def set_voicesWhere by blast
  then have "card (set ?xs) \<le> 1" by (metis card_le_Suc0_iff_eq List.finite_set One_nat_def)
  then show ?thesis by (simp add: distinct_card [OF voicesWhere_distinct])
qed

lemma voicesWhere_single:
  assumes "length (voicesWhere C vs) \<le> 1" "i < length vs" "C (vs ! i)"
  shows "voicesWhere C vs = [i]"
proof -
  from assms(2,3) have "i \<in> set (voicesWhere C vs)" by (simp add: set_voicesWhere)
  with assms(1) show ?thesis
    by (cases "voicesWhere C vs") (auto simp: length_Suc_conv)
qed

lemma retrigger_same_slot:
  assumes g: "goodState s" and i: "i < length (voices s)" and h: "holdsNote n (voices s ! i)"
  shows "voicesWhere (holdsNote n) (voices (noteOn s n vel)) = [i]"
proof -
  let ?s0 = "resumeIfSuspended s"
  have g0: "goodState ?s0" using g by (rule goodState_resume)
  from i h have ex: "\<exists>v \<in> set (voices ?s0). holdsNote n v"
    by (metis nth_mem resumeIfSuspended_frame(1))
  obtain s1 r where a: "findVoiceForNoteOn ?s0 n = (s1, r)" by (cases "findVoiceForNoteOn ?s0 n")
  from ex have "voices ?s0 \<noteq> []" by auto
  with a findVoiceForNoteOn_None [of ?s0 n s1] obtain i' where r: "r = Some i'"
    by (cases r) auto
  with a have a': "findVoiceForNoteOn ?s0 n = (s1, Some i')" by simp
  note sh = findVoiceForNoteOn_Some [OF a']
  from sh(3) [OF ex] have "holdsNote n (voices s ! i')" by (simp add: resumeIfSuspended_frame)
  with h i sh(1) g have ii: "i' = i"
    unfolding goodState_def uniqueNotes_def by (metis resumeIfSuspended_frame(1))
  have len1: "length (voices s1) = length (voices s)"
    using sh(2) by (auto simp: stopVoice_frame resumeIfSuspended_frame)
  from noteOn_Some [OF a', of vel] i ii len1
  have len: "length (voices (noteOn s n vel)) = length (voices s)"
    and v: "voices (noteOn s n vel) ! i = noteOn_voice s1 (voices s1 ! i) n vel"
    by simp_all
  have "holdsNote n (voices (noteOn s n vel) ! i)"
    by (simp add: v holdsNote_def noteOn_voice_fields)
  moreover have "uniqueNotes (noteOn s n vel)"
    using noteOn_good [OF g, of n vel] by (simp add: goodState_def)
  then have "length (voicesWhere (holdsNote n) (voices (noteOn s n vel))) \<le> 1"
    by (rule uniqueNotes_count)
  ultimately show ?thesis using i len by (simp add: voicesWhere_single)
qed

text \<open>
  Claim C3. After every sequence of events applied to the freshly constructed engine (calls
  of its methods, among them note-on and note-off, and steps of its environment), at most
  one voice holds any given note while active or releasing; and a note-on for a note that
  some voice holds reuses that voice: afterwards it is the one voice that holds the note.
\<close>

theorem one_voice_per_note:
  "length (voicesWhere (holdsNote n) (voices (run (constructor ctx p) evs))) \<le> 1
   \<and> (\<forall>i<length (voices (run (constructor ctx p) evs)).
         holdsNote n (voices (run (constructor ctx p) evs) ! i) \<longrightarrow>
           voicesWhere (holdsNote n)
             (voices (noteOn (run (constructor ctx p) evs) n vel)) = [i])"
proof -
  have g: "goodState (run (constructor ctx p) evs)" by (rule reachable_good)
  then have "uniqueNotes (run (constructor ctx p) evs)" by (simp add: goodState_def)
  then have "length (voicesWhere (holdsNote n) (voices (run (constructor ctx p) evs))) \<le> 1"
    by (rule uniqueNotes_count)
  with retrigger_same_slot [OF g] show ?thesis by blast
qed

lemma oneNote_run: "run (constructor exampleContext INITIAL_SYNTH_PARAMS) [NoteOn 60 100] = oneNote"
  by (simp add: run_def oneNote_def)

lemma oneNote_first:
  "0 < length (voices oneNote)" "holdsNote 60 (voices oneNote ! 0)"
proof -
  from oneNote_voices show "0 < length (voices oneNote)" by auto
  from oneNote_voices have "map (\<lambda>v. (voice_note v, isActive v, isReleasing v, startTime v))
      (voices oneNote) ! 0 = (Some 60, True, False, 0)" by simp
  with \<open>0 < length (voices oneNote)\<close> show "holdsNote 60 (voices oneNote ! 0)"
    by (simp add: holdsNote_def)
qed

theorem one_voice_per_note_witness:
  "0 < length (voices (run (constructor exampleContext INITIAL_SYNTH_PARAMS) [NoteOn 60 100]))
   \<and> holdsNote 60 (voices (run (constructor exampleContext INITIAL_SYNTH_PARAMS) [NoteOn 60 100]) ! 0)
   \<and> voicesWhere (holdsNote 60)
        (voices (noteOn (run (constructor exampleContext INITIAL_SYNTH_PARAMS) [NoteOn 60 100])
           60 100)) = [0]
   \<and> length (voicesWhere (holdsNote 60)
        (voices (run (constructor exampleContext INITIAL_SYNTH_PARAMS) [NoteOn 60 100]))) \<le> 1"
  using one_voice_per_note [of 60 exampleContext INITIAL_SYNTH_PARAMS "[NoteOn 60 100]" 100]
    oneNote_first
  by (simp add: oneNote_run)

text \<open>
  Claim C10. In every state the constructed engine can reach, and in the state in which
  \<^const>\<open>noteOn\<close> runs allocation there, the voice that \<^const>\<open>findVoiceForNoteOn\<close> returns
  is neither active nor releasing at the moment of return, has no oscillator component, no
  noise component, no cleanup timer handle, and no pending timer of the host refers to it:
  a retriggered or stolen voice is handed over as a free voice is.
\<close>

theorem allocated_voice_is_reset:
  assumes "s = run (constructor ctx p) evs \<or> s = resumeIfSuspended (run (constructor ctx p) evs)"
    and "findVoiceForNoteOn s n = (s1, Some i)"
  shows "i < length (voices s1)
       \<and> \<not> isActive (voices s1 ! i) \<and> \<not> isReleasing (voices s1 ! i)
       \<and> oscillators (voices s1 ! i) = []
       \<and> noiseNode (voices s1 ! i) = None \<and> noiseGainNode (voices s1 ! i) = None
       \<and> scheduledStopTimeouts (voices s1 ! i) = []
       \<and> list_all (\<lambda>t. timer_voice t \<noteq> i) (timers s1)"
proof -
  from assms(1) have "goodState s"
    using reachable_good [of ctx p evs] goodState_resume by blast
  from allocated_voice_reset [OF this assms(2)] show ?thesis
    by (simp add: isFree_def cleanNodes_def list_all_iff)
qed

lemma oneNote_retrigger:
  "findVoiceForNoteOn oneNote 60 = (stopVoice oneNote 0 True, Some 0)"
proof -
  from oneNote_first have ne: "voices oneNote \<noteq> []" by auto
  with oneNote_first have "\<exists>v \<in> set (voices oneNote). holdsNote 60 v"
    by (metis nth_mem)
  with findVoiceForNoteOn_cases [OF ne, of 60] obtain i
    where i: "firstWhere (holdsNote 60) (voices oneNote) i"
      and r: "findVoiceForNoteOn oneNote 60 = (stopVoice oneNote i True, Some i)"
    by auto
  from i oneNote_first have "i = 0" by (cases i) (auto simp: firstWhere_def)
  with r show ?thesis by simp
qed

theorem allocated_voice_is_reset_witness:
  "findVoiceForNoteOn (run (constructor exampleContext INITIAL_SYNTH_PARAMS) [NoteOn 60 100]) 60
     = (stopVoice oneNote 0 True, Some 0)
   \<and> \<not> isActive (voices (stopVoice oneNote 0 True) ! 0)
   \<and> \<not> isReleasing (voices (stopVoice oneNote 0 True) ! 0)
   \<and> oscillators (voices (stopVoice oneNote 0 True) ! 0) = []
   \<and> noiseNode (voices (stopVoice oneNote 0 True) ! 0) = None
   \<and> noiseGainNode (voices (stopVoice oneNote 0 True) ! 0) = None
   \<and> scheduledStopTimeouts (voices (stopVoice oneNote 0 True) ! 0) = []
   \<and> list_all (\<lambda>t. timer_voice t \<noteq> 0) (timers (stopVoice oneNote 0 True))"
proof -
  have a: "findVoiceForNoteOn (run (constructor exampleContext INITIAL_SYNTH_PARAMS) [NoteOn 60 100]) 60
     = (stopVoice oneNote 0 True, Some 0)"
    by (simp add: oneNote_run oneNote_retrigger)
  from allocated_voice_is_reset [OF _ a, of exampleContext INITIAL_SYNTH_PARAMS "[NoteOn 60 100]"] a
  show ?thesis by simp
qed

subsection \<open>The freshly constructed engine and its first note\<close>

lemma newEngine_explicit:
  assumes "\<not> lfo_enabled (lfo p)"
  shows "newEngine k ctx p =
     \<lparr>audioContext = ctx,
      masterGain = \<lparr>pvalue = 1, calls = [SetValueAtTime (masterVolume p) (currentTime ctx)]\<rparr>,
      masterConnected = True,
      lfoOscNode = None, lfoGainPitchNode = None, lfoGainFilterNode = None,
      voices = map newVoice [0..<k],
      currentParams = p, pitchBendMultiplier = 1,
      timers = [], nextTimerId = 1\<rparr>"
  using assms
  by (simp add: newEngine_def applyParamsToEngineGlobally_def Let_def now_def param_defs)

lemma newEngine_fields:
  assumes "\<not> lfo_enabled (lfo p)"
  shows "audioContext (newEngine k ctx p) = ctx"
    "currentParams (newEngine k ctx p) = p"
    "pitchBendMultiplier (newEngine k ctx p) = 1"
    "timers (newEngine k ctx p) = []"
    "nextTimerId (newEngine k ctx p) = 1"
    "lfoGainPitchNode (newEngine k ctx p) = None"
    "lfoGainFilterNode (newEngine k ctx p) = None"
    "now (newEngine k ctx p) = currentTime ctx"
    "nyquist (newEngine k ctx p) = sampleRate ctx / 2"
  by (simp_all add: newEngine_explicit [OF assms] now_def nyquist_def)

lemma newEngine_alloc:
  assumes "0 < k"
  shows "findVoiceForNoteOn (newEngine k ctx p) n = (newEngine k ctx p, Some 0)"
proof -
  let ?s = "newEngine k ctx p"
  have v: "voices ?s = map newVoice [0..<k]" by (rule voices_newEngine)
  from assms have ne: "voices ?s \<noteq> []" by (simp add: v)
  have nh: "\<not> (\<exists>v \<in> set (voices ?s). holdsNote n v)"
    by (auto simp: v holdsNote_def newVoice_def)
  from assms have f0: "isFree (voices ?s ! 0)" by (simp add: v isFree_def newVoice_def)
  with ne have "\<exists>v \<in> set (voices ?s). isFree v" by (metis length_greater_0_conv nth_mem)
  with findVoiceForNoteOn_cases [OF ne, of n] nh obtain i
    where i: "firstWhere isFree (voices ?s) i" and r: "findVoiceForNoteOn ?s n = (?s, Some i)"
    by auto
  from i f0 have "i = 0" by (cases i) (auto simp: firstWhere_def)
  with r show ?thesis by simp
qed

lemma noteOn_fresh:
  assumes "0 < k" "ctx_state ctx \<noteq> Suspended" "\<not> lfo_enabled (lfo p)"
  shows "noteOn (newEngine k ctx p) n vel =
     (newEngine k ctx p)\<lparr>voices :=
        (voices (newEngine k ctx p))[0 := noteOn_voice (newEngine k ctx p) (newVoice 0) n vel]\<rparr>"
proof -
  let ?s = "newEngine k ctx p"
  from assms(2,3) have r: "resumeIfSuspended ?s = ?s"
    by (simp add: resumeIfSuspended_def newEngine_fields)
  from assms(1) have v0: "voices ?s ! 0 = newVoice 0" by (simp add: voices_newEngine)
  have "noteOn ?s n vel =
      ?s\<lparr>timers := clearTimeouts (scheduledStopTimeouts (voices ?s ! 0)) (timers ?s),
         voices := (voices ?s)[0 := noteOn_voice ?s (voices ?s ! 0) n vel]\<rparr>"
    by (rule noteOn_Some) (simp add: r newEngine_alloc [OF assms(1)])
  also have "\<dots> = ?s\<lparr>voices := (voices ?s)[0 := noteOn_voice ?s (newVoice 0) n vel]\<rparr>"
    by (simp add: v0 newVoice_def clearTimeouts_def newEngine_fields [OF assms(3)])
  finally show ?thesis .
qed

subsection \<open>Filter automation of a note-on\<close>

lemma noteOn_voice_filter_calls:
  "calls (biquad_frequency (filterNode (noteOn_voice s v n vel))) =
     calls (biquad_frequency (filterNode v)) @
       [CancelScheduledValues (now s),
        SetValueAtTime (filterBaseCutoff s n) (now s),
        LinearRampToValueAtTime (filterAttackTarget s n)
          (now s + max 0.001 (attack (filterEnvelope (currentParams s)))),
        LinearRampToValueAtTime (filterSustainTarget s n)
          (now s + max 0.001 (attack (filterEnvelope (currentParams s)))
                 + max 0.001 (decay (filterEnvelope (currentParams s))))]"
  by (simp add: noteOn_voice_def connectLFOToVoice_def Let_def param_defs)

lemma findVoiceForNoteOn_frame:
  assumes "findVoiceForNoteOn s n = (s1, r)"
  shows "audioContext s1 = audioContext s" "currentParams s1 = currentParams s"
    "pitchBendMultiplier s1 = pitchBendMultiplier s" "now s1 = now s" "nyquist s1 = nyquist s"
    "length (voices s1) = length (voices s)"
proof -
  have "s1 = s \<or> (\<exists>i. s1 = stopVoice s i True)"
  proof (cases r)
    case None
    with assms findVoiceForNoteOn_None [of s n s1] show ?thesis by simp
  next
    case (Some i)
    with assms findVoiceForNoteOn_Some(2) [of s n s1 i] show ?thesis by auto
  qed
  then show "audioContext s1 = audioContext s" "currentParams s1 = currentParams s"
    "pitchBendMultiplier s1 = pitchBendMultiplier s" "now s1 = now s" "nyquist s1 = nyquist s"
    "length (voices s1) = length (voices s)"
    by (auto simp: stopVoice_frame)
qed

text \<open>
  Claim C7, as amended. For every note-on that is given a voice, and every parameter
  snapshot: the base cutoff is the configured cutoff plus (note - 60) * keyboardTracking * 20,
  clamped to [20, sampleRate / 2], when keyboardTracking > 0, and the configured cutoff
  itself, not clamped, otherwise; the attack peak is the base cutoff plus
  envelopeAmount * 5000, clamped to that range; the sustain target is the base cutoff plus
  filterEnvelope.sustain * envelopeAmount * 5000, clamped to that range. The note-on
  issues on the filter-frequency parameter of the voice, after the calls it had received:
  cancel from now, set the base cutoff at now, ramp to the attack peak at
  now + max(0.001, attack), ramp to the sustain target at
  now + max(0.001, attack) + max(0.001, decay).
\<close>

theorem noteOn_filter_schedule:
  assumes "findVoiceForNoteOn (resumeIfSuspended s) n = (s1, Some i)"
  shows "calls (biquad_frequency (filterNode (voices (noteOn s n vel) ! i))) =
     calls (biquad_frequency (filterNode (voices s1 ! i))) @
       (let fp = filterParams (currentParams s);
            fe = filterEnvelope (currentParams s);
            nyq = sampleRate (audioContext s) / 2;
            base = (if keyboardTracking fp > 0
                    then max 20 (min nyq (cutoff fp + (of_int n - 60) * (keyboardTracking fp * 20)))
                    else cutoff fp)
        in [CancelScheduledValues (now s),
            SetValueAtTime base (now s),
            LinearRampToValueAtTime (max 20 (min nyq (base + envelopeAmount fp * 5000)))
              (now s + max 0.001 (attack fe)),
            LinearRampToValueAtTime
              (max 20 (min nyq (base + sustain fe * (envelopeAmount fp * 5000))))
              (now s + max 0.001 (attack fe) + max 0.001 (decay fe))])"
proof -
  note fr = findVoiceForNoteOn_frame [OF assms]
  from findVoiceForNoteOn_Some(1) [OF assms] fr(6) have i: "i < length (voices s1)" by simp
  have eq: "now s1 = now s" "currentParams s1 = currentParams s" "nyquist s1 = nyquist s"
    using fr(2,4,5) by (simp_all add: resumeIfSuspended_frame)
  have ny: "sampleRate (audioContext s) / 2 = nyquist s" by (simp add: nyquist_def)
  have "voices (noteOn s n vel) ! i = noteOn_voice s1 (voices s1 ! i) n vel"
    using i by (simp add: noteOn_Some [OF assms])
  then show ?thesis
    by (simp add: noteOn_voice_filter_calls eq ny filterBaseCutoff_def filterAttackTarget_def
        filterSustainTarget_def filterEnvModAmount_def clampCutoff_def Let_def)
qed

lemma INITIAL_lfo_off: "\<not> lfo_enabled (lfo INITIAL_SYNTH_PARAMS)"
  by (simp add: INITIAL_SYNTH_PARAMS_def)

theorem noteOn_filter_schedule_witness:
  "findVoiceForNoteOn (resumeIfSuspended (constructor exampleContext INITIAL_SYNTH_PARAMS)) 72
     = (constructor exampleContext INITIAL_SYNTH_PARAMS, Some 0)
   \<and> calls (biquad_frequency (filterNode
        (voices (noteOn (constructor exampleContext INITIAL_SYNTH_PARAMS) 72 100) ! 0))) =
       [CancelScheduledValues 0, SetValueAtTime 5120 0,
        LinearRampToValueAtTime 7620 0.05, LinearRampToValueAtTime 6370 0.25]"
proof -
  let ?E = "constructor exampleContext INITIAL_SYNTH_PARAMS"
  have r: "resumeIfSuspended ?E = ?E"
    by (simp add: resumeIfSuspended_def constructor_def newEngine_fields [OF INITIAL_lfo_off]
        exampleContext_def)
  have a: "findVoiceForNoteOn (resumeIfSuspended ?E) 72 = (?E, Some 0)"
    unfolding r by (simp add: constructor_def MAX_POLYPHONY_def newEngine_alloc)
  have f: "currentParams ?E = INITIAL_SYNTH_PARAMS" "audioContext ?E = exampleContext"
    "now ?E = 0"
    by (simp_all add: constructor_def newEngine_fields [OF INITIAL_lfo_off] exampleContext_def)
  have c0: "calls (biquad_frequency (filterNode (voices ?E ! 0))) = []"
    by (simp add: constructor_def voices_newEngine MAX_POLYPHONY_def newVoice_def param_defs)
  have "calls (biquad_frequency (filterNode (voices (noteOn ?E 72 100) ! 0))) =
       [CancelScheduledValues 0, SetValueAtTime 5120 0,
        LinearRampToValueAtTime 7620 0.05, LinearRampToValueAtTime 6370 0.25]"
    apply (subst noteOn_filter_schedule [OF a, of 100])
    apply (simp only: f c0)
    apply (simp add: INITIAL_SYNTH_PARAMS_def exampleContext_def Let_def)
    done
  with a show ?thesis by blast
qed

text \<open>
  The claim as stated clamps the base cutoff in every case. With keyboard tracking off, a
  cutoff of 15 kHz and a Nyquist frequency of 8 kHz, the specification's base cutoff is
  8000, while the note-on sets the filter frequency to 15000 at now.
\<close>

theorem noteOn_filter_base_counterexample:
  "spec_filterBaseCutoff lowRateEngine 60 = 8000
   \<and> calls (biquad_frequency (filterNode (voices (noteOn lowRateEngine 60 100) ! 0))) =
       [CancelScheduledValues 0, SetValueAtTime 15000 0,
        LinearRampToValueAtTime 8000 0.05, LinearRampToValueAtTime 8000 0.25]
   \<and> SetValueAtTime (spec_filterBaseCutoff lowRateEngine 60) 0
       \<notin> set (calls (biquad_frequency (filterNode (voices (noteOn lowRateEngine 60 100) ! 0))))"
proof -
  let ?p = "INITIAL_SYNTH_PARAMS\<lparr>filterParams :=
          (filterParams INITIAL_SYNTH_PARAMS)\<lparr>cutoff := 15000, keyboardTracking := 0\<rparr>\<rparr>"
  let ?c = "exampleContext\<lparr>sampleRate := 16000\<rparr>"
  have off: "\<not> lfo_enabled (lfo ?p)" by (simp add: INITIAL_SYNTH_PARAMS_def)
  have E: "lowRateEngine = newEngine 8 ?c ?p"
    by (simp add: lowRateEngine_def constructor_def MAX_POLYPHONY_def)
  have f: "currentParams lowRateEngine = ?p" "now lowRateEngine = 0" "nyquist lowRateEngine = 8000"
    by (simp_all add: E newEngine_fields [OF off] exampleContext_def)
  have sp: "spec_filterBaseCutoff lowRateEngine 60 = 8000"
    by (simp add: spec_filterBaseCutoff_def clampCutoff_def f INITIAL_SYNTH_PARAMS_def)
  have v: "voices (noteOn lowRateEngine 60 100) ! 0 = noteOn_voice lowRateEngine (newVoice 0) 60 100"
    unfolding E by (subst noteOn_fresh [OF _ _ off]) (simp_all add: exampleContext_def voices_newEngine)
  have c: "calls (biquad_frequency (filterNode (voices (noteOn lowRateEngine 60 100) ! 0))) =
       [CancelScheduledValues 0, SetValueAtTime 15000 0,
        LinearRampToValueAtTime 8000 0.05, LinearRampToValueAtTime 8000 0.25]"
    by (simp add: v noteOn_voice_filter_calls f filterBaseCutoff_def filterAttackTarget_def
        filterSustainTarget_def filterEnvModAmount_def clampCutoff_def newVoice_def param_defs
        INITIAL_SYNTH_PARAMS_def)
  show ?thesis by (simp add: sp c)
qed

subsection \<open>Pitch bend and the descriptor of an oscillator\<close>

lemma noteOn_voice_oscillators:
  assumes "\<not> lfo_enabled (lfo (currentParams s))"
  shows "oscillators (noteOn_voice s v n vel) =
     map (buildOscillator s n)
       (filter (\<lambda>oscParam. \<not> (\<not> osc_enabled oscParam \<or> osc_level oscParam = 0))
          (oscillatorParams (currentParams s)))"
  using assms by (simp add: noteOn_voice_def connectLFOToVoice_def Let_def)

lemma setPitchBend_frame:
  "audioContext (setPitchBend s b) = audioContext s"
  "currentParams (setPitchBend s b) = currentParams s"
  "pitchBendMultiplier (setPitchBend s b) = 2 powr ((b * 2) / 12)"
  "length (voices (setPitchBend s b)) = length (voices s)"
  "now (setPitchBend s b) = now s"
  by (simp_all add: setPitchBend_def Let_def now_def)

lemma setPitchBend_nth:
  assumes "i < length (voices s)"
  shows "voices (setPitchBend s b) ! i =
     (if (isActive (voices s ! i) \<or> isReleasing (voices s ! i)) \<and> voice_note (voices s ! i) \<noteq> None
      then (voices s ! i)\<lparr>oscillators :=
             map (bendOscillator (s\<lparr>pitchBendMultiplier := 2 powr ((b * 2) / 12)\<rparr>)
                    (the (voice_note (voices s ! i))))
                 (zip (oscillators (voices s ! i)) [0..<length (oscillators (voices s ! i))])\<rparr>
      else voices s ! i)"
  using assms by (simp add: setPitchBend_def Let_def)

text \<open>Scenario: the first descriptor is enabled at level 0, the second sounds an octave up.\<close>

lemma levelZeroFirst_off: "\<not> lfo_enabled (lfo levelZeroFirst)"
  by (simp add: levelZeroFirst_def INITIAL_SYNTH_PARAMS_def)

lemma levelZeroFirst_note:
  "voices (noteOn (constructor exampleContext levelZeroFirst) 69 100) ! 0 =
     noteOn_voice (constructor exampleContext levelZeroFirst) (newVoice 0) 69 100"
  "length (voices (noteOn (constructor exampleContext levelZeroFirst) 69 100)) = 8"
  "currentParams (noteOn (constructor exampleContext levelZeroFirst) 69 100) = levelZeroFirst"
  "now (noteOn (constructor exampleContext levelZeroFirst) 69 100) = 0"
proof -
  define E where "E = newEngine 8 exampleContext levelZeroFirst"
  have c: "constructor exampleContext levelZeroFirst = E"
    by (simp add: constructor_def MAX_POLYPHONY_def E_def)
  have n: "noteOn E 69 100 = E\<lparr>voices := (voices E)[0 := noteOn_voice E (newVoice 0) 69 100]\<rparr>"
    unfolding E_def by (rule noteOn_fresh [OF _ _ levelZeroFirst_off]) (simp_all add: exampleContext_def)
  have f: "length (voices E) = 8" "currentParams E = levelZeroFirst" "now E = 0"
    unfolding E_def
    by (simp_all add: voices_newEngine newEngine_fields [OF levelZeroFirst_off] exampleContext_def)
  show "voices (noteOn (constructor exampleContext levelZeroFirst) 69 100) ! 0 =
     noteOn_voice (constructor exampleContext levelZeroFirst) (newVoice 0) 69 100"
    "length (voices (noteOn (constructor exampleContext levelZeroFirst) 69 100)) = 8"
    "currentParams (noteOn (constructor exampleContext levelZeroFirst) 69 100) = levelZeroFirst"
    "now (noteOn (constructor exampleContext levelZeroFirst) 69 100) = 0"
    unfolding c n using f by (simp_all add: now_def)
qed

lemma levelZeroFirst_oscillators:
  "oscillators (noteOn_voice (constructor exampleContext levelZeroFirst) (newVoice 0) 69 100) =
     [\<lparr>oscNode_type = SQUARE,
       oscNode_frequency = \<lparr>pvalue = 440, calls = [SetValueAtTime 880 0]\<rparr>,
       oscNode_started = [0], oscNode_stopped = [], oscNode_detuneLFO = False,
       gainNode_gain = \<lparr>pvalue = 1, calls = [SetValueAtTime 0.6 0]\<rparr>\<rparr>]"
proof -
  define E where "E = constructor exampleContext levelZeroFirst"
  have f: "currentParams E = levelZeroFirst" "now E = 0" "pitchBendMultiplier E = 1"
    unfolding E_def
    by (simp_all add: constructor_def newEngine_fields [OF levelZeroFirst_off] exampleContext_def)
  have off: "\<not> lfo_enabled (lfo (currentParams E))" by (simp add: f levelZeroFirst_off)
  have "oscillators (noteOn_voice E (newVoice 0) 69 100) =
     [\<lparr>oscNode_type = SQUARE,
       oscNode_frequency = \<lparr>pvalue = 440, calls = [SetValueAtTime 880 0]\<rparr>,
       oscNode_started = [0], oscNode_stopped = [], oscNode_detuneLFO = False,
       gainNode_gain = \<lparr>pvalue = 1, calls = [SetValueAtTime 0.6 0]\<rparr>\<rparr>]"
    by (simp add: noteOn_voice_oscillators [OF off] f buildOscillator_def levelZeroFirst_def
        INITIAL_SYNTH_PARAMS_def midiNoteToFrequency_def param_defs Let_def)
  then show ?thesis unfolding E_def .
qed

lemma levelZeroFirst_run:
  "map (\<lambda>osc. calls (oscNode_frequency osc))
       (oscillators (voices (run (constructor exampleContext levelZeroFirst)
          [NoteOn 69 100, PitchBend 0]) ! 0))
     = [[SetValueAtTime 880 0, LinearRampToValueAtTime 440 0.01]]
   \<and> pitchBendMultiplier (run (constructor exampleContext levelZeroFirst)
          [NoteOn 69 100, PitchBend 0]) = 1
   \<and> midiNoteToFrequency (of_int 69 + octave (oscillatorParams levelZeroFirst ! 1) * 12)
        * 2 powr (tune (oscillatorParams levelZeroFirst ! 1) / 1200) = 880"
proof -
  define S where "S = noteOn (constructor exampleContext levelZeroFirst) 69 100"
  have r: "run (constructor exampleContext levelZeroFirst) [NoteOn 69 100, PitchBend 0]
      = setPitchBend S 0"
    by (simp add: run_def S_def)
  have v: "voice_note (voices S ! 0) = Some 69" "isActive (voices S ! 0)"
    "length (voices S) = 8" "currentParams S = levelZeroFirst" "now S = 0"
    unfolding S_def by (simp_all add: levelZeroFirst_note noteOn_voice_fields)
  have o: "oscillators (voices S ! 0) =
     [\<lparr>oscNode_type = SQUARE,
       oscNode_frequency = \<lparr>pvalue = 440, calls = [SetValueAtTime 880 0]\<rparr>,
       oscNode_started = [0], oscNode_stopped = [], oscNode_detuneLFO = False,
       gainNode_gain = \<lparr>pvalue = 1, calls = [SetValueAtTime 0.6 0]\<rparr>\<rparr>]"
    unfolding S_def by (simp only: levelZeroFirst_note levelZeroFirst_oscillators)
  have 1: "map (\<lambda>osc. calls (oscNode_frequency osc))
       (oscillators (voices (setPitchBend S 0) ! 0))
     = [[SetValueAtTime 880 0, LinearRampToValueAtTime 440 0.01]]"
    by (simp add: setPitchBend_nth v o bendOscillator_def lookupOscParam_def now_def [of "S\<lparr>pitchBendMultiplier := _\<rparr>"]
        v(5) [unfolded now_def] waveformString_def levelZeroFirst_def INITIAL_SYNTH_PARAMS_def
        midiNoteToFrequency_def param_defs Let_def)
  have 2: "pitchBendMultiplier (setPitchBend S 0) = 1" by (simp add: setPitchBend_frame)
  have 3: "midiNoteToFrequency (of_int 69 + octave (oscillatorParams levelZeroFirst ! 1) * 12)
        * 2 powr (tune (oscillatorParams levelZeroFirst ! 1) / 1200) = 880"
    by (simp add: levelZeroFirst_def midiNoteToFrequency_def)
  from 1 2 3 show ?thesis by (simp only: r)
qed

lemma setPitchBend_all_free:
  assumes "\<forall>v \<in> set (voices s). isFree v"
  shows "setPitchBend s b = s\<lparr>pitchBendMultiplier := 2 powr ((b * 2) / 12)\<rparr>"
proof -
  have "map (\<lambda>voice. if (isActive voice \<or> isReleasing voice) \<and> voice_note voice \<noteq> None
                      then voice\<lparr>oscillators := f voice\<rparr> else voice) (voices s) = voices s" for f
    using assms by (intro map_idI) (auto simp: isFree_def)
  then show ?thesis by (simp add: setPitchBend_def Let_def)
qed

lemma noteOn_first_free:
  assumes ne: "voices s \<noteq> []" and fr: "\<forall>v \<in> set (voices s). isFree v"
    and em: "scheduledStopTimeouts (voices s ! 0) = []"
    and ru: "ctx_state (audioContext s) \<noteq> Suspended"
  shows "noteOn s n vel = s\<lparr>voices := (voices s)[0 := noteOn_voice s (voices s ! 0) n vel]\<rparr>"
proof -
  from ru have r: "resumeIfSuspended s = s" by (simp add: resumeIfSuspended_def)
  from fr have nh: "\<not> (\<exists>v \<in> set (voices s). holdsNote n v)"
    by (auto simp: holdsNote_def isFree_def)
  from ne fr have f0: "isFree (voices s ! 0)" by (metis length_greater_0_conv nth_mem)
  from ne fr have "\<exists>v \<in> set (voices s). isFree v" by (cases "voices s") auto
  with findVoiceForNoteOn_cases [OF ne, of n] nh obtain i
    where i: "firstWhere isFree (voices s) i" and a: "findVoiceForNoteOn s n = (s, Some i)"
    by auto
  from i f0 have "i = 0" by (cases i) (auto simp: firstWhere_def)
  with a have "findVoiceForNoteOn (resumeIfSuspended s) n = (s, Some 0)" by (simp add: r)
  from noteOn_Some [OF this, of vel] em show ?thesis by (simp add: clearTimeouts_def)
qed

text \<open>Scenario: the first descriptor is disabled, and the note starts while the bend is up.\<close>

lemma disabledFirst_off: "\<not> lfo_enabled (lfo disabledFirst)"
  by (simp add: disabledFirst_def INITIAL_SYNTH_PARAMS_def)

lemma disabledFirst_run:
  "map (\<lambda>osc. calls (oscNode_frequency osc))
       (oscillators (voices (run (constructor exampleContext disabledFirst)
          [PitchBend 1, NoteOn 69 100, PitchBend 0]) ! 0))
     = [[SetValueAtTime (440 * 2 powr (1 / 6)) 0]]"
  "pitchBendMultiplier (run (constructor exampleContext disabledFirst)
          [PitchBend 1, NoteOn 69 100, PitchBend 0]) = 1"
proof -
  define E where "E = newEngine 8 exampleContext disabledFirst"
  define B where "B = E\<lparr>pitchBendMultiplier := 2 powr ((1 * 2) / 12)\<rparr>"
  define S where "S = B\<lparr>voices := (voices B)[0 := noteOn_voice B (voices B ! 0) 69 100]\<rparr>"
  have c: "constructor exampleContext disabledFirst = E"
    by (simp add: constructor_def MAX_POLYPHONY_def E_def)
  have vE: "voices E = map newVoice [0..<8]" unfolding E_def by (rule voices_newEngine)
  have fE: "currentParams E = disabledFirst" "now E = 0" "ctx_state (audioContext E) = Running"
    unfolding E_def
    by (simp_all add: newEngine_fields [OF disabledFirst_off] exampleContext_def)
  have free: "\<forall>v \<in> set (voices E). isFree v" by (auto simp: vE isFree_def newVoice_def)
  have b: "setPitchBend E 1 = B" unfolding B_def by (rule setPitchBend_all_free [OF free])
  have fB: "voices B = voices E" "currentParams B = disabledFirst" "now B = 0"
    "pitchBendMultiplier B = 2 powr (1 / 6)" "ctx_state (audioContext B) = Running"
    using fE by (simp_all add: B_def now_def)
  have n: "noteOn B 69 100 = S"
    unfolding S_def
    by (rule noteOn_first_free) (simp_all add: fB vE isFree_def newVoice_def)
  have r: "run (constructor exampleContext disabledFirst) [PitchBend 1, NoteOn 69 100, PitchBend 0]
      = setPitchBend S 0"
    by (simp add: run_def c b n)
  have offB: "\<not> lfo_enabled (lfo (currentParams B))" by (simp add: fB disabledFirst_off)
  have o: "oscillators (noteOn_voice B (voices B ! 0) 69 100) =
     [\<lparr>oscNode_type = SQUARE,
       oscNode_frequency = \<lparr>pvalue = 440, calls = [SetValueAtTime (440 * 2 powr (1 / 6)) 0]\<rparr>,
       oscNode_started = [0], oscNode_stopped = [], oscNode_detuneLFO = False,
       gainNode_gain = \<lparr>pvalue = 1, calls = [SetValueAtTime 0.6 0]\<rparr>\<rparr>]"
    by (simp add: noteOn_voice_oscillators [OF offB] fB buildOscillator_def disabledFirst_def
        INITIAL_SYNTH_PARAMS_def midiNoteToFrequency_def param_defs Let_def)
  have vS: "length (voices S) = 8" "voices S ! 0 = noteOn_voice B (voices B ! 0) 69 100"
    "currentParams S = disabledFirst"
    by (simp_all add: S_def fB vE)
  have "map (\<lambda>osc. calls (oscNode_frequency osc)) (oscillators (voices (setPitchBend S 0) ! 0))
     = [[SetValueAtTime (440 * 2 powr (1 / 6)) 0]]"
    by (simp add: setPitchBend_nth vS o noteOn_voice_fields bendOscillator_def lookupOscParam_def
        waveformString_def disabledFirst_def INITIAL_SYNTH_PARAMS_def Let_def)
  then show "map (\<lambda>osc. calls (oscNode_frequency osc))
       (oscillators (voices (run (constructor exampleContext disabledFirst)
          [PitchBend 1, NoteOn 69 100, PitchBend 0]) ! 0))
     = [[SetValueAtTime (440 * 2 powr (1 / 6)) 0]]"
    by (simp only: r)
  show "pitchBendMultiplier (run (constructor exampleContext disabledFirst)
          [PitchBend 1, NoteOn 69 100, PitchBend 0]) = 1"
    by (simp only: r) (simp add: setPitchBend_frame)
qed

lemma bent_not_unbent: "(440::real) * 2 powr (1 / 6) \<noteq> 440"
  by simp

text \<open>
  Claim C2 says that \<^verbatim>\<open>setPitchBend(0)\<close> leaves every live oscillator at the unbent tuned
  frequency of the descriptor it was built from. The code looks the descriptor up by the
  position of the oscillator among the live ones, so a descriptor skipped at note-on shifts
  the lookup. With the first descriptor enabled at level 0 (octave 0) and the second an
  octave up, the only oscillator of note 69 is built at 880 Hz and the bend to 0 ramps it to
  440 Hz. With the first descriptor disabled and the bend at 1 when note 69 starts, the
  oscillator is built at 440 * 2 powr (1 / 6) Hz and the bend to 0 schedules nothing on it,
  although its unbent tuned frequency is 440 Hz. The multiplier is 1 in both runs.
\<close>

theorem setPitchBend_wrong_descriptor:
  "map (\<lambda>osc. calls (oscNode_frequency osc))
       (oscillators (voices (run (constructor exampleContext levelZeroFirst)
          [NoteOn 69 100, PitchBend 0]) ! 0))
     = [[SetValueAtTime 880 0, LinearRampToValueAtTime 440 0.01]]
   \<and> pitchBendMultiplier (run (constructor exampleContext levelZeroFirst)
          [NoteOn 69 100, PitchBend 0]) = 1
   \<and> midiNoteToFrequency (of_int 69 + octave (oscillatorParams levelZeroFirst ! 1) * 12)
        * 2 powr (tune (oscillatorParams levelZeroFirst ! 1) / 1200) = 880
   \<and> map (\<lambda>osc. calls (oscNode_frequency osc))
       (oscillators (voices (run (constructor exampleContext disabledFirst)
          [PitchBend 1, NoteOn 69 100, PitchBend 0]) ! 0))
     = [[SetValueAtTime (440 * 2 powr (1 / 6)) 0]]
   \<and> pitchBendMultiplier (run (constructor exampleContext disabledFirst)
          [PitchBend 1, NoteOn 69 100, PitchBend 0]) = 1
   \<and> midiNoteToFrequency (of_int 69 + octave (oscillatorParams disabledFirst ! 1) * 12)
        * 2 powr (tune (oscillatorParams disabledFirst ! 1) / 1200) = 440
   \<and> (440::real) * 2 powr (1 / 6) \<noteq> 440"
proof -
  have "midiNoteToFrequency (of_int 69 + octave (oscillatorParams disabledFirst ! 1) * 12)
        * 2 powr (tune (oscillatorParams disabledFirst ! 1) / 1200) = 440"
    by (simp add: disabledFirst_def midiNoteToFrequency_def)
  with levelZeroFirst_run disabledFirst_run bent_not_unbent show ?thesis by blast
qed


subsection \<open>What a stop leaves in the voice\<close>

lemma stopVoice_soft_clears:
  assumes "i < length (voices s)"
  shows "voice_note (voices (stopVoice s i False) ! i) = None
       \<and> velocity (voices (stopVoice s i False) ! i) = 0
       \<and> startTime (voices (stopVoice s i False) ! i) = 0
       \<and> \<not> isActive (voices (stopVoice s i False) ! i)
       \<and> \<not> isReleasing (voices (stopVoice s i False) ! i)"
  using assms by (simp add: stopVoice_nth stopVoice_voice_fields)

lemma fold_stopVoice_other:
  "k \<notin> set xs \<Longrightarrow> voices (fold (\<lambda>i s'. stopVoice s' i h) xs s) ! k = voices s ! k"
  by (induction xs arbitrary: s) (simp_all add: stopVoice_nth)

lemma fold_stopVoice_length:
  "length (voices (fold (\<lambda>i s'. stopVoice s' i h) xs s)) = length (voices s)"
  by (induction xs arbitrary: s) (simp_all add: stopVoice_frame)

lemma fold_stopVoice_hard_at:
  assumes "distinct xs" "k \<in> set xs" "k < length (voices s)"
  shows "voice_note (voices (fold (\<lambda>i s'. stopVoice s' i True) xs s) ! k) = voice_note (voices s ! k)
       \<and> velocity (voices (fold (\<lambda>i s'. stopVoice s' i True) xs s) ! k)
           = (if voice_note (voices s ! k) \<noteq> None then velocity (voices s ! k) else 0)
       \<and> startTime (voices (fold (\<lambda>i s'. stopVoice s' i True) xs s) ! k)
           = (if voice_note (voices s ! k) \<noteq> None then startTime (voices s ! k) else 0)
       \<and> \<not> isActive (voices (fold (\<lambda>i s'. stopVoice s' i True) xs s) ! k)
       \<and> \<not> isReleasing (voices (fold (\<lambda>i s'. stopVoice s' i True) xs s) ! k)"
  using assms
proof (induction xs arbitrary: s)
  case Nil
  then show ?case by simp
next
  case (Cons j xs)
  show ?case
  proof (cases "k = j")
    case True
    with Cons.prems have "k \<notin> set xs" by simp
    then have "voices (fold (\<lambda>i s'. stopVoice s' i True) (j # xs) s) ! k
        = voices (stopVoice s j True) ! k"
      by (simp add: fold_stopVoice_other)
    with True Cons.prems(3) show ?thesis
      by (simp add: stopVoice_nth stopVoice_voice_fields)
  next
    case False
    with Cons.prems have "distinct xs" "k \<in> set xs" "k < length (voices (stopVoice s j True))"
      by (simp_all add: stopVoice_frame)
    from Cons.IH [OF this] False show ?thesis by (simp add: stopVoice_nth)
  qed
qed

lemma disconnectLFOFromVoice_fields:
  "voice_note (disconnectLFOFromVoice s v) = voice_note v"
  "velocity (disconnectLFOFromVoice s v) = velocity v"
  "startTime (disconnectLFOFromVoice s v) = startTime v"
  "isActive (disconnectLFOFromVoice s v) = isActive v"
  "isReleasing (disconnectLFOFromVoice s v) = isReleasing v"
  by (simp_all add: disconnectLFOFromVoice_def Let_def)

text \<open>What \<^const>\<open>dispose\<close> leaves in a voice: the hard stop keeps a note that is not null.\<close>

lemma dispose_voice:
  assumes "k < length (voices s)"
  shows "voice_note (voices (dispose s) ! k) = voice_note (voices s ! k)
       \<and> velocity (voices (dispose s) ! k)
           = (if voice_note (voices s ! k) \<noteq> None then velocity (voices s ! k) else 0)
       \<and> startTime (voices (dispose s) ! k)
           = (if voice_note (voices s ! k) \<noteq> None then startTime (voices s ! k) else 0)
       \<and> \<not> isActive (voices (dispose s) ! k)
       \<and> \<not> isReleasing (voices (dispose s) ! k)"
proof -
  let ?s1 = "fold (\<lambda>i s'. stopVoice s' i True) [0..<length (voices s)] s"
  have v: "voices (dispose s) = map (disconnectLFOFromVoice ?s1) (voices ?s1)"
    by (simp add: dispose_def Let_def teardownLFO_def)
  from assms have k1: "k < length (voices ?s1)" by (simp add: fold_stopVoice_length)
  from assms have "k \<in> set [0..<length (voices s)]" by simp
  from fold_stopVoice_hard_at [OF distinct_upt this assms] k1 show ?thesis
    by (simp add: v disconnectLFOFromVoice_fields)
qed

text \<open>
  Claim C4 says that a full stop, among them the stop of every voice by \<^verbatim>\<open>dispose\<close>,
  clears note, velocity and start time. A soft stop does (\<open>stopVoice_soft_clears\<close>), but
  \<^const>\<open>dispose\<close> stops hard, and a hard stop clears these fields only when the note is
  null already: after a note-on of note 60 at velocity 100 at time 2, the disposed voice
  still records note 60, velocity 100 and start time 2, and is neither active nor releasing.
\<close>

theorem dispose_keeps_note:
  "voice_note (voices (run (constructor laterContext INITIAL_SYNTH_PARAMS)
       [NoteOn 60 100, Dispose]) ! 0) = Some 60
   \<and> velocity (voices (run (constructor laterContext INITIAL_SYNTH_PARAMS)
       [NoteOn 60 100, Dispose]) ! 0) = 100
   \<and> startTime (voices (run (constructor laterContext INITIAL_SYNTH_PARAMS)
       [NoteOn 60 100, Dispose]) ! 0) = 2
   \<and> \<not> isActive (voices (run (constructor laterContext INITIAL_SYNTH_PARAMS)
       [NoteOn 60 100, Dispose]) ! 0)
   \<and> \<not> isReleasing (voices (run (constructor laterContext INITIAL_SYNTH_PARAMS)
       [NoteOn 60 100, Dispose]) ! 0)"
proof -
  define E where "E = newEngine 8 laterContext INITIAL_SYNTH_PARAMS"
  define S where "S = noteOn E 60 100"
  have r: "run (constructor laterContext INITIAL_SYNTH_PARAMS) [NoteOn 60 100, Dispose] = dispose S"
    by (simp add: run_def constructor_def MAX_POLYPHONY_def E_def S_def)
  have n: "S = E\<lparr>voices := (voices E)[0 := noteOn_voice E (newVoice 0) 60 100]\<rparr>"
    unfolding S_def E_def
    by (rule noteOn_fresh [OF _ _ INITIAL_lfo_off])
       (simp_all add: laterContext_def exampleContext_def)
  have f: "length (voices E) = 8" "now E = 2"
    unfolding E_def
    by (simp_all add: voices_newEngine newEngine_fields [OF INITIAL_lfo_off] laterContext_def
        exampleContext_def)
  have v: "0 < length (voices S)" "voice_note (voices S ! 0) = Some 60"
    "velocity (voices S ! 0) = 100" "startTime (voices S ! 0) = 2"
    by (simp_all add: n f noteOn_voice_fields)
  from dispose_voice [OF v(1)] v(2,3,4) show ?thesis by (simp only: r) simp
qed

subsection \<open>Release scheduling of a note-off\<close>

lemma noteOff_voice_stops:
  assumes "\<not> (\<not> isActive (voices s ! j) \<and> isReleasing (voices s ! j) \<and> voice_note (voices s ! j) \<noteq> Some n)"
    and "j < length (voices s)"
  shows "oscillators (voices (noteOff_voice n j s) ! j) =
           map (\<lambda>osc. osc\<lparr>oscNode_stopped := oscNode_stopped osc @
                  [now s + max (release (ampEnvelope (currentParams s)))
                               (release (filterEnvelope (currentParams s))) + 0.05]\<rparr>)
               (oscillators (voices s ! j))"
    and "noiseNode (voices (noteOff_voice n j s) ! j) =
           map_option (\<lambda>nn. nn\<lparr>noise_stopped := noise_stopped nn @
                  [now s + max (release (ampEnvelope (currentParams s)))
                               (release (filterEnvelope (currentParams s))) + 0.05]\<rparr>)
               (noiseNode (voices s ! j))"
  using assms by (auto simp add: noteOff_voice_def Let_def)

lemma noteOff_voice_other:
  "k \<noteq> j \<Longrightarrow> voices (noteOff_voice n j s) ! k = voices s ! k"
  by (simp add: noteOff_voice_def Let_def)

lemma noteOff_voice_timers_mono: "set (timers s) \<subseteq> set (timers (noteOff_voice n j s))"
  by (auto simp: noteOff_voice_def Let_def)

lemma fold_noteOff_voice_other:
  "k \<notin> set xs \<Longrightarrow> voices (fold (noteOff_voice n) xs s) ! k = voices s ! k"
  by (induction xs arbitrary: s) (simp_all add: noteOff_voice_other)

lemma fold_noteOff_voice_timers_mono:
  "set (timers s) \<subseteq> set (timers (fold (noteOff_voice n) xs s))"
proof (induction xs arbitrary: s)
  case Nil
  show ?case by simp
next
  case (Cons j xs)
  from noteOff_voice_timers_mono [of s n j] Cons [of "noteOff_voice n j s"] show ?case
    by auto
qed

lemma fold_noteOff_voice_at:
  assumes "distinct xs" "i \<in> set xs"
    and "\<forall>j \<in> set xs. j < length (voices s) \<and> voice_note (voices s ! j) = Some n"
  shows "oscillators (voices (fold (noteOff_voice n) xs s) ! i) =
           map (\<lambda>osc. osc\<lparr>oscNode_stopped := oscNode_stopped osc @
                  [now s + max (release (ampEnvelope (currentParams s)))
                               (release (filterEnvelope (currentParams s))) + 0.05]\<rparr>)
               (oscillators (voices s ! i))
       \<and> noiseNode (voices (fold (noteOff_voice n) xs s) ! i) =
           map_option (\<lambda>nn. nn\<lparr>noise_stopped := noise_stopped nn @
                  [now s + max (release (ampEnvelope (currentParams s)))
                               (release (filterEnvelope (currentParams s))) + 0.05]\<rparr>)
               (noiseNode (voices s ! i))
       \<and> (\<exists>t \<in> set (timers (fold (noteOff_voice n) xs s)).
             timer_voice t = i \<and> timer_note t = n
           \<and> timer_delay t = (max (release (ampEnvelope (currentParams s)))
                                   (release (filterEnvelope (currentParams s))) + 0.1) * 1000
           \<and> timer_id t \<in> set (scheduledStopTimeouts (voices (fold (noteOff_voice n) xs s) ! i)))"
  using assms
proof (induction xs arbitrary: s)
  case Nil
  then show ?case by simp
next
  case (Cons j xs)
  let ?s1 = "noteOff_voice n j s"
  from Cons.prems(3) have j: "j < length (voices s)" and nj: "voice_note (voices s ! j) = Some n"
    by simp_all
  from nj have g: "\<not> (\<not> isActive (voices s ! j) \<and> isReleasing (voices s ! j)
      \<and> voice_note (voices s ! j) \<noteq> Some n)" by simp
  show ?case
  proof (cases "i = j")
    case True
    with Cons.prems(1) have ni: "i \<notin> set xs" by simp
    have same: "voices (fold (noteOff_voice n) (j # xs) s) ! i = voices ?s1 ! i"
      using ni by (simp add: fold_noteOff_voice_other)
    let ?t = "\<lparr>timer_id = nextTimerId s,
            timer_delay = (max (release (ampEnvelope (currentParams s)))
                               (release (filterEnvelope (currentParams s))) + 0.1) * 1000,
            timer_voice = j, timer_note = n\<rparr>"
    have "?t \<in> set (timers ?s1)" by (simp add: noteOff_voice_run(7) [OF g j])
    with fold_noteOff_voice_timers_mono [of ?s1 n xs]
    have tin: "?t \<in> set (timers (fold (noteOff_voice n) (j # xs) s))" by auto
    have tid: "timer_id ?t \<in> set (scheduledStopTimeouts (voices ?s1 ! j))"
      by (simp add: noteOff_voice_run(6) [OF g j])
    from tin tid True same
    have ex: "\<exists>t \<in> set (timers (fold (noteOff_voice n) (j # xs) s)).
             timer_voice t = i \<and> timer_note t = n
           \<and> timer_delay t = (max (release (ampEnvelope (currentParams s)))
                                   (release (filterEnvelope (currentParams s))) + 0.1) * 1000
           \<and> timer_id t \<in> set (scheduledStopTimeouts (voices (fold (noteOff_voice n) (j # xs) s) ! i))"
      by (intro bexI [of _ ?t]) simp_all
    from True same noteOff_voice_stops [OF g j] ex show ?thesis by simp
  next
    case False
    with Cons.prems have d: "distinct xs" and ix: "i \<in> set xs" and jx: "j \<notin> set xs"
      by simp_all
    have pre: "\<forall>k \<in> set xs. k < length (voices ?s1) \<and> voice_note (voices ?s1 ! k) = Some n"
    proof
      fix k assume k: "k \<in> set xs"
      with jx have "k \<noteq> j" by auto
      with k Cons.prems(3) show "k < length (voices ?s1) \<and> voice_note (voices ?s1 ! k) = Some n"
        by (simp add: noteOff_voice_frame noteOff_voice_other)
    qed
    from Cons.IH [OF d ix pre] False show ?thesis
      by (simp add: noteOff_voice_frame noteOff_voice_other)
  qed
qed

lemma cleanupTimerFires_pending:
  assumes "find (\<lambda>u. timer_id u = tid) (timers s2) = Some t"
  shows "cleanupTimerFires s2 tid =
     (if isReleasing (voices s2 ! timer_voice t) \<and> voice_note (voices s2 ! timer_voice t) = Some (timer_note t)
      then stopVoice (s2\<lparr>timers := filter (\<lambda>u. timer_id u \<noteq> tid) (timers s2)\<rparr>) (timer_voice t) False
      else s2\<lparr>timers := filter (\<lambda>u. timer_id u \<noteq> tid) (timers s2)\<rparr>)"
  using assms by (simp add: cleanupTimerFires_def Let_def)

text \<open>
  Claim C6. For every note-off of a note that a voice holds while active or releasing: every
  oscillator of that voice, and its noise source if it has one, receives a stop at
  now + max(ampEnvelope.release, filterEnvelope.release) + 0.05; a cleanup timer for this
  voice and note is pending afterwards, recorded on the voice, with a delay of
  (max(ampEnvelope.release, filterEnvelope.release) + 0.1) * 1000 milliseconds; and
  whenever a pending timer for this voice and note fires, the voice is stopped softly
  (\<open>hardStop = False\<close>) if it is then releasing and holds the note, and is left alone
  otherwise.
\<close>

theorem noteOff_release_schedule:
  assumes "i < length (voices s)" and "holdsNote n (voices s ! i)"
  shows "oscillators (voices (noteOff s n) ! i) =
           map (\<lambda>osc. osc\<lparr>oscNode_stopped := oscNode_stopped osc @
                  [now s + max (release (ampEnvelope (currentParams s)))
                               (release (filterEnvelope (currentParams s))) + 0.05]\<rparr>)
               (oscillators (voices s ! i))
       \<and> noiseNode (voices (noteOff s n) ! i) =
           map_option (\<lambda>nn. nn\<lparr>noise_stopped := noise_stopped nn @
                  [now s + max (release (ampEnvelope (currentParams s)))
                               (release (filterEnvelope (currentParams s))) + 0.05]\<rparr>)
               (noiseNode (voices s ! i))
       \<and> (\<exists>t \<in> set (timers (noteOff s n)).
             timer_voice t = i \<and> timer_note t = n
           \<and> timer_delay t = (max (release (ampEnvelope (currentParams s)))
                                   (release (filterEnvelope (currentParams s))) + 0.1) * 1000
           \<and> timer_id t \<in> set (scheduledStopTimeouts (voices (noteOff s n) ! i)))
       \<and> (\<forall>s2 t. find (\<lambda>u. timer_id u = timer_id t) (timers s2) = Some t
                  \<and> timer_voice t = i \<and> timer_note t = n \<longrightarrow>
             cleanupTimerFires s2 (timer_id t) =
               (if isReleasing (voices s2 ! i) \<and> voice_note (voices s2 ! i) = Some n
                then stopVoice (s2\<lparr>timers := filter (\<lambda>u. timer_id u \<noteq> timer_id t) (timers s2)\<rparr>)
                       i False
                else s2\<lparr>timers := filter (\<lambda>u. timer_id u \<noteq> timer_id t) (timers s2)\<rparr>))"
proof -
  let ?xs = "voicesWhere (\<lambda>v. voice_note v = Some n \<and> (isActive v \<or> isReleasing v)) (voices s)"
  have d: "distinct ?xs" by (rule voicesWhere_distinct)
  from assms have i: "i \<in> set ?xs" by (simp add: set_voicesWhere holdsNote_def)
  have pre: "\<forall>j \<in> set ?xs. j < length (voices s) \<and> voice_note (voices s ! j) = Some n"
    by (simp add: set_voicesWhere)
  from fold_noteOff_voice_at [OF d i pre] cleanupTimerFires_pending show ?thesis
    unfolding noteOff_def by auto
qed

lemma oneNote_state:
  "currentParams oneNote = INITIAL_SYNTH_PARAMS" "now oneNote = 0"
  "map oscNode_stopped (oscillators (voices oneNote ! 0)) = [[], []]"
  "noiseNode (voices oneNote ! 0) = None"
proof -
  define E where "E = newEngine 8 exampleContext INITIAL_SYNTH_PARAMS"
  have n: "oneNote = E\<lparr>voices := (voices E)[0 := noteOn_voice E (newVoice 0) 60 100]\<rparr>"
    unfolding oneNote_def constructor_def MAX_POLYPHONY_def E_def
    by (rule noteOn_fresh [OF _ _ INITIAL_lfo_off]) (simp_all add: exampleContext_def)
  have f: "length (voices E) = 8" "currentParams E = INITIAL_SYNTH_PARAMS" "now E = 0"
    unfolding E_def
    by (simp_all add: voices_newEngine newEngine_fields [OF INITIAL_lfo_off] exampleContext_def)
  have off: "\<not> lfo_enabled (lfo (currentParams E))" by (simp add: f INITIAL_lfo_off)
  show "currentParams oneNote = INITIAL_SYNTH_PARAMS" "now oneNote = 0"
    using f by (simp_all add: n now_def)
  show "map oscNode_stopped (oscillators (voices oneNote ! 0)) = [[], []]"
    by (simp add: n f noteOn_voice_oscillators [OF off] buildOscillator_def
        INITIAL_SYNTH_PARAMS_def Let_def)
  show "noiseNode (voices oneNote ! 0) = None"
    by (simp add: n f noteOn_voice_def connectLFOToVoice_def INITIAL_SYNTH_PARAMS_def Let_def)
qed

lemma oneNote_timers: "timers oneNote = []" "nextTimerId oneNote = 1"
proof -
  define E where "E = newEngine 8 exampleContext INITIAL_SYNTH_PARAMS"
  have n: "oneNote = E\<lparr>voices := (voices E)[0 := noteOn_voice E (newVoice 0) 60 100]\<rparr>"
    unfolding oneNote_def constructor_def MAX_POLYPHONY_def E_def
    by (rule noteOn_fresh [OF _ _ INITIAL_lfo_off]) (simp_all add: exampleContext_def)
  show "timers oneNote = []" "nextTimerId oneNote = 1"
    by (simp_all add: n E_def newEngine_fields [OF INITIAL_lfo_off])
qed

lemma oneNote_noteOff:
  "noteOff oneNote 60 = noteOff_voice 60 0 oneNote"
  "timers (noteOff oneNote 60) =
     [\<lparr>timer_id = 1, timer_delay = 600, timer_voice = 0, timer_note = 60\<rparr>]"
  "isReleasing (voices (noteOff oneNote 60) ! 0)"
  "voice_note (voices (noteOff oneNote 60) ! 0) = Some 60"
proof -
  have "goodState oneNote" using reachable_good [of exampleContext INITIAL_SYNTH_PARAMS "[NoteOn 60 100]"]
    by (simp only: oneNote_run)
  then have "uniqueNotes oneNote" by (simp add: goodState_def)
  then have "length (voicesWhere (holdsNote 60) (voices oneNote)) \<le> 1"
    by (rule uniqueNotes_count)
  with oneNote_first have "voicesWhere (holdsNote 60) (voices oneNote) = [0]"
    by (simp add: voicesWhere_single)
  moreover have "(\<lambda>v. voice_note v = Some 60 \<and> (isActive v \<or> isReleasing v)) = holdsNote 60"
    by (simp add: holdsNote_def fun_eq_iff)
  ultimately show 1: "noteOff oneNote 60 = noteOff_voice 60 0 oneNote"
    by (simp add: noteOff_def)
  from oneNote_first(2) have g: "\<not> (\<not> isActive (voices oneNote ! 0) \<and> isReleasing (voices oneNote ! 0)
      \<and> voice_note (voices oneNote ! 0) \<noteq> Some 60)"
    by (simp add: holdsNote_def)
  note r = noteOff_voice_run [OF g oneNote_first(1)]
  show "timers (noteOff oneNote 60) =
     [\<lparr>timer_id = 1, timer_delay = 600, timer_voice = 0, timer_note = 60\<rparr>]"
    by (simp add: 1 r(7) oneNote_timers oneNote_state(1) INITIAL_SYNTH_PARAMS_def)
  show "isReleasing (voices (noteOff oneNote 60) ! 0)" by (simp add: 1 r(5))
  from oneNote_first(2) show "voice_note (voices (noteOff oneNote 60) ! 0) = Some 60"
    by (simp add: 1 r(3) holdsNote_def)
qed

theorem noteOff_release_schedule_witness:
  "0 < length (voices oneNote) \<and> holdsNote 60 (voices oneNote ! 0)
   \<and> map oscNode_stopped (oscillators (voices (noteOff oneNote 60) ! 0)) = [[0.55], [0.55]]
   \<and> (\<exists>t \<in> set (timers (noteOff oneNote 60)).
         timer_voice t = 0 \<and> timer_note t = 60 \<and> timer_delay t = 600
       \<and> timer_id t \<in> set (scheduledStopTimeouts (voices (noteOff oneNote 60) ! 0)))
   \<and> find (\<lambda>u. timer_id u = 1) (timers (noteOff oneNote 60))
       = Some \<lparr>timer_id = 1, timer_delay = 600, timer_voice = 0, timer_note = 60\<rparr>
   \<and> cleanupTimerFires (noteOff oneNote 60) 1
       = stopVoice ((noteOff oneNote 60)\<lparr>timers := []\<rparr>) 0 False"
proof -
  note th = noteOff_release_schedule [OF oneNote_first, unfolded oneNote_state(1,2)]
  from th have "oscillators (voices (noteOff oneNote 60) ! 0) =
      map (\<lambda>osc. osc\<lparr>oscNode_stopped := oscNode_stopped osc @ [0.55]\<rparr>)
          (oscillators (voices oneNote ! 0))"
    by (simp add: INITIAL_SYNTH_PARAMS_def)
  then have "map oscNode_stopped (oscillators (voices (noteOff oneNote 60) ! 0))
      = map (\<lambda>l. l @ [0.55]) (map oscNode_stopped (oscillators (voices oneNote ! 0)))"
    by (simp add: comp_def)
  then have 1: "map oscNode_stopped (oscillators (voices (noteOff oneNote 60) ! 0))
      = [[0.55], [0.55]]"
    by (simp only: oneNote_state(3)) simp
  from th have 2: "\<exists>t \<in> set (timers (noteOff oneNote 60)).
         timer_voice t = 0 \<and> timer_note t = 60 \<and> timer_delay t = 600
       \<and> timer_id t \<in> set (scheduledStopTimeouts (voices (noteOff oneNote 60) ! 0))"
    by (simp add: INITIAL_SYNTH_PARAMS_def)
  let ?t = "\<lparr>timer_id = 1, timer_delay = 600, timer_voice = 0, timer_note = 60\<rparr>"
  have 3: "find (\<lambda>u. timer_id u = 1) (timers (noteOff oneNote 60)) = Some ?t"
    by (simp add: oneNote_noteOff(2))
  from th have "find (\<lambda>u. timer_id u = timer_id ?t) (timers (noteOff oneNote 60)) = Some ?t
                  \<and> timer_voice ?t = 0 \<and> timer_note ?t = 60 \<longrightarrow>
             cleanupTimerFires (noteOff oneNote 60) (timer_id ?t) =
               (if isReleasing (voices (noteOff oneNote 60) ! 0)
                   \<and> voice_note (voices (noteOff oneNote 60) ! 0) = Some 60
                then stopVoice ((noteOff oneNote 60)\<lparr>timers :=
                       filter (\<lambda>u. timer_id u \<noteq> timer_id ?t) (timers (noteOff oneNote 60))\<rparr>) 0 False
                else (noteOff oneNote 60)\<lparr>timers :=
                       filter (\<lambda>u. timer_id u \<noteq> timer_id ?t) (timers (noteOff oneNote 60))\<rparr>)"
    by blast
  with 3 have 4: "cleanupTimerFires (noteOff oneNote 60) 1
       = stopVoice ((noteOff oneNote 60)\<lparr>timers := []\<rparr>) 0 False"
    by (simp add: oneNote_noteOff(2,3,4))
  from 1 2 3 4 oneNote_first show ?thesis by blast
qed

end
